theory Spec2Isabelle
  imports Complex_Main
begin

section \<open>Python strings\<close>

text \<open>
  A \<open>str\<close> is modelled as the list of its code points, for text whose code points are
  below 256: a \<^typ>\<open>char\<close> is one code point (\<open>CHR 0xE9\<close> is U+00E9). On these code points
  \<open>str.lower()\<close>, \<open>str.strip()\<close> and the classes \<open>\d\<close>, \<open>\s\<close>, \<open>\w\<close> of \<open>re\<close> are as Python has
  them; text with a code point from 256 on is outside the model.
\<close>

text \<open>
  \<open>str.lower()\<close> of one code point: \<open>A\<close>..\<open>Z\<close> and the capitals U+00C0..U+00DE (without the
  sign U+00D7) move up by 32; every other code point below 256 stays.
\<close>

definition upper_chars :: "char list" where
  "upper_chars = ''ABCDEFGHIJKLMNOPQRSTUVWXYZ'' @
     [CHR 0xC0, CHR 0xC1, CHR 0xC2, CHR 0xC3, CHR 0xC4, CHR 0xC5, CHR 0xC6,
     CHR 0xC7, CHR 0xC8, CHR 0xC9, CHR 0xCA, CHR 0xCB, CHR 0xCC, CHR 0xCD,
     CHR 0xCE, CHR 0xCF, CHR 0xD0, CHR 0xD1, CHR 0xD2, CHR 0xD3, CHR 0xD4,
     CHR 0xD5, CHR 0xD6, CHR 0xD8, CHR 0xD9, CHR 0xDA, CHR 0xDB, CHR 0xDC,
     CHR 0xDD, CHR 0xDE]"

definition lower_chars :: "char list" where
  "lower_chars = ''abcdefghijklmnopqrstuvwxyz'' @
     [CHR 0xE0, CHR 0xE1, CHR 0xE2, CHR 0xE3, CHR 0xE4, CHR 0xE5, CHR 0xE6,
     CHR 0xE7, CHR 0xE8, CHR 0xE9, CHR 0xEA, CHR 0xEB, CHR 0xEC, CHR 0xED,
     CHR 0xEE, CHR 0xEF, CHR 0xF0, CHR 0xF1, CHR 0xF2, CHR 0xF3, CHR 0xF4,
     CHR 0xF5, CHR 0xF6, CHR 0xF8, CHR 0xF9, CHR 0xFA, CHR 0xFB, CHR 0xFC,
     CHR 0xFD, CHR 0xFE]"

definition to_lower :: "char \<Rightarrow> char" where
  "to_lower c = (case map_of (zip upper_chars lower_chars) c of Some d \<Rightarrow> d | None \<Rightarrow> c)"

definition lower :: "string \<Rightarrow> string" where
  "lower s = map to_lower s"

fun is_prefix :: "string \<Rightarrow> string \<Rightarrow> bool" where
  "is_prefix [] s = True"
| "is_prefix (k # ks) [] = False"
| "is_prefix (k # ks) (c # cs) = (k = c \<and> is_prefix ks cs)"

text \<open>\<open>contains k s\<close> is Python's \<open>k in s\<close> on strings.\<close>

fun contains :: "string \<Rightarrow> string \<Rightarrow> bool" where
  "contains k [] = (k = [])"
| "contains k (c # cs) = (is_prefix k (c # cs) \<or> contains k cs)"

text \<open>\<open>any(keyword in text for keyword in keywords)\<close>\<close>

definition any_in :: "string list \<Rightarrow> string \<Rightarrow> bool" where
  "any_in keywords text = list_ex (\<lambda>keyword. contains keyword text) keywords"

definition is_digit :: "char \<Rightarrow> bool" where
  "is_digit c = (c \<in> set ''0123456789'')"

text \<open>
  White space as \<open>str.isspace()\<close>, \<open>str.strip()\<close> and \<open>\s\<close> see it below code point 256: tab,
  line feed, vertical tab, form feed, carriage return, the four separators U+001C..U+001F,
  the blank, U+0085 and the no-break space U+00A0. \<open>int()\<close> strips the same without the
  four separators.
\<close>

definition is_space :: "char \<Rightarrow> bool" where
  "is_space c = (c \<in> set [CHR 0x09, CHR 0x0A, CHR 0x0B, CHR 0x0C, CHR 0x0D,
                            CHR 0x1C, CHR 0x1D, CHR 0x1E, CHR 0x1F, CHR 0x20,
                            CHR 0x85, CHR 0xA0])"

definition is_int_space :: "char \<Rightarrow> bool" where
  "is_int_space c = (c \<in> set [CHR 0x09, CHR 0x0A, CHR 0x0B, CHR 0x0C, CHR 0x0D, CHR 0x20,
                                CHR 0x85, CHR 0xA0])"

text \<open>
  \<open>\w\<close> below code point 256: the ASCII letters and digits, the underscore, and the letters
  and numeric signs of the upper half (U+00AA, U+00B2, U+00B3, U+00B5, U+00B9, U+00BA,
  U+00BC..U+00BE, U+00C0..U+00FF without U+00D7 and U+00F7).
\<close>

definition is_word :: "char \<Rightarrow> bool" where
  "is_word c =
     (c \<in> set (''abcdefghijklmnopqrstuvwxyzABCDEFGHIJKLMNOPQRSTUVWXYZ0123456789_'' @
        [CHR 0xAA, CHR 0xB2, CHR 0xB3, CHR 0xB5, CHR 0xB9, CHR 0xBA, CHR 0xBC, CHR 0xBD, CHR 0xBE,
         CHR 0xDF, CHR 0xFF] @ upper_chars @ lower_chars))"

text \<open>The bracket classes of the patterns: \<open>[\d,.]\<close>, \<open>[:\s]\<close>, \<open>[\d\s]\<close> and \<open>(?:\+|0)\<close>.\<close>

definition is_num_char :: "char \<Rightarrow> bool" where
  "is_num_char c = (is_digit c \<or> c = CHR '','' \<or> c = CHR ''.'')"

definition is_colon_space :: "char \<Rightarrow> bool" where
  "is_colon_space c = (c = CHR '':'' \<or> is_space c)"

definition is_digit_space :: "char \<Rightarrow> bool" where
  "is_digit_space c = (is_digit c \<or> is_space c)"

definition is_plus_or_zero :: "char \<Rightarrow> bool" where
  "is_plus_or_zero c = (c = CHR ''+'' \<or> c = CHR ''0'')"

definition strip :: "string \<Rightarrow> string" where
  "strip s = rev (dropWhile is_space (rev (dropWhile is_space s)))"

definition int_strip :: "string \<Rightarrow> string" where
  "int_strip s = rev (dropWhile is_int_space (rev (dropWhile is_int_space s)))"

definition digit_val :: "char \<Rightarrow> nat" where
  "digit_val c = (case map_of (zip ''0123456789'' [0, 1, 2, 3, 4, 5, 6, 7, 8, 9]) c of
                    Some d \<Rightarrow> d
                  | None \<Rightarrow> 0)"

definition digits_val :: "string \<Rightarrow> nat" where
  "digits_val ds = foldl (\<lambda>a c. 10 * a + digit_val c) 0 ds"

section \<open>Exceptions\<close>

datatype exn_kind = KeyError | ValueError | TypeError | OverflowError | OSError

text \<open>An exception is its class and \<open>str(e)\<close>.\<close>

type_synonym exn = "exn_kind \<times> string"

section \<open>The fragment of \<open>re\<close> the processor uses\<close>

text \<open>
  Every pattern of the processor is a sequence of literal characters, single characters of
  a class, and greedy repetitions \<open>c*\<close>, \<open>c+\<close>, \<open>c{9,}\<close> of a class, one of which may be the
  capturing group. \<open>Rep c n\<close> is \<open>c{n,}\<close>; \<open>Grp c n\<close> is \<open>(c{n,})\<close>.
\<close>

datatype item = Lit char | One "char \<Rightarrow> bool" | Rep "char \<Rightarrow> bool" nat | Grp "char \<Rightarrow> bool" nat

type_synonym pattern = "item list"

definition lits :: "string \<Rightarrow> pattern" where
  "lits s = map Lit s"

definition chr_eq :: "bool \<Rightarrow> char \<Rightarrow> char \<Rightarrow> bool" where
  "chr_eq ignorecase c x = (if ignorecase then to_lower c = to_lower x else c = x)"

primrec first_some :: "('a \<Rightarrow> 'b option) \<Rightarrow> 'a list \<Rightarrow> 'b option" where
  "first_some f [] = None"
| "first_some f (k # ks) = (case f k of Some r \<Rightarrow> Some r | None \<Rightarrow> first_some f ks)"

text \<open>
  \<open>rx_match\<close> matches a pattern at the start of the text and returns the matched text and
  the text of the group. A repetition first takes the longest run of its class and gives
  characters back one at a time (down to its minimum) while the rest of the pattern fails:
  the backtracking of \<open>re\<close>.
\<close>

fun rx_match :: "bool \<Rightarrow> pattern \<Rightarrow> string \<Rightarrow> (string \<times> string) option" where
  "rx_match ic [] s = Some ([], [])"
| "rx_match ic (Lit c # its) s =
     (case s of
        [] \<Rightarrow> None
      | x # xs \<Rightarrow>
          if chr_eq ic c x then map_option (\<lambda>(m, g). (x # m, g)) (rx_match ic its xs) else None)"
| "rx_match ic (One cls # its) s =
     (case s of
        [] \<Rightarrow> None
      | x # xs \<Rightarrow>
          if cls x then map_option (\<lambda>(m, g). (x # m, g)) (rx_match ic its xs) else None)"
| "rx_match ic (Rep cls n # its) s =
     first_some
       (\<lambda>k. map_option (\<lambda>(m, g). (take k s @ m, g)) (rx_match ic its (drop k s)))
       (rev [n ..< Suc (length (takeWhile cls s))])"
| "rx_match ic (Grp cls n # its) s =
     first_some
       (\<lambda>k. map_option (\<lambda>(m, g). (take k s @ m, take k s)) (rx_match ic its (drop k s)))
       (rev [n ..< Suc (length (takeWhile cls s))])"

text \<open>\<open>re.search\<close>: the match at the leftmost start position that has one.\<close>

definition rx_search :: "bool \<Rightarrow> pattern \<Rightarrow> string \<Rightarrow> (string \<times> string) option" where
  "rx_search ic p s = first_some (\<lambda>i. rx_match ic p (drop i s)) [0 ..< Suc (length s)]"

section \<open>\<open>float\<close>, \<open>int\<close> and true division\<close>

text \<open>
  \<open>float(amount_str)\<close>, where \<open>amount_str\<close> is a run of \<open>[\d,.]\<close> with the commas removed, so
  a string of digits and dots: it parses when it has a digit and at most one dot.
  \<open>None\<close> is \<open>ValueError\<close>. The value is the decimal read exactly; Python rounds it to the
  nearest double.
\<close>

definition py_float :: "string \<Rightarrow> rat option" where
  "py_float s =
     (let ip = takeWhile is_digit s; r = dropWhile is_digit s in
      case r of
        [] \<Rightarrow> if ip = [] then None else Some (of_nat (digits_val ip))
      | c # fp \<Rightarrow>
          if c = CHR ''.'' \<and> list_all is_digit fp \<and> (ip \<noteq> [] \<or> fp \<noteq> [])
          then Some (of_nat (digits_val ip) + of_nat (digits_val fp) / 10 ^ length fp)
          else None)"

text \<open>
  \<open>int(date_str)\<close> in base 10: white space around (as \<open>int\<close> sees it), an optional sign,
  then digits in which single underscores may separate digits. \<open>max_digits\<close> is \<open>sys.get_int_max_str_digits()\<close>
  (4300 from Python 3.11 on; 0 means no limit). \<open>None\<close> is \<open>ValueError\<close>.
\<close>

definition int_literal :: "string \<Rightarrow> bool" where
  "int_literal ds =
     (ds \<noteq> [] \<and> is_digit (hd ds) \<and> is_digit (last ds) \<and>
      list_all (\<lambda>c. is_digit c \<or> c = CHR ''_'') ds \<and> \<not> contains ''__'' ds)"

definition py_int :: "nat \<Rightarrow> string \<Rightarrow> int option" where
  "py_int max_digits s =
     (let t = int_strip s;
          neg = (t \<noteq> [] \<and> hd t = CHR ''-'');
          ds = (if t \<noteq> [] \<and> (hd t = CHR ''-'' \<or> hd t = CHR ''+'') then tl t else t);
          digits = filter is_digit ds
      in if int_literal ds \<and> (max_digits = 0 \<or> length digits \<le> max_digits)
         then Some (if neg then - int (digits_val digits) else int (digits_val digits))
         else None)"

text \<open>
  \<open>n / 1000\<close> on an \<open>int\<close> is the correctly rounded double of the quotient, and
  \<open>OverflowError\<close> when that is beyond the doubles, which is from \<open>2^1024 - 2^970\<close> on (the
  midpoint between the largest double and \<open>2^1024\<close>). The model keeps the exact quotient.
\<close>

definition py_truediv :: "int \<Rightarrow> int \<Rightarrow> exn + rat" where
  "py_truediv a b =
     (if 2 ^ 1024 - 2 ^ 970 \<le> \<bar>of_int a / of_int b :: rat\<bar>
      then Inl (OverflowError, ''integer division result too large for a float'')
      else Inr (of_int a / of_int b))"

section \<open>Data model\<close>

text \<open>A message is the dictionary \<open>xmltodict\<close> makes of one \<open>sms\<close> element.\<close>

type_synonym message = "string \<rightharpoonup> string"

datatype txn_type = CASH_IN | CASH_OUT | OTHER

section \<open>The processor\<close>

definition CASH_IN_KEYWORDS :: "string list" where
  "CASH_IN_KEYWORDS = [''received'', ''cash in'', ''payment received'', ''paid'']"

definition CASH_OUT_KEYWORDS :: "string list" where
  "CASH_OUT_KEYWORDS = [''withdrew'', ''cash out'', ''paid'', ''payment'']"

text \<open>A \<open>dict\<close> literal iterates in the order it is written: an association list.\<close>

definition CATEGORIES :: "(string \<times> string list) list" where
  "CATEGORIES =
     [(''bills'', [''bill'', ''dstv'', ''electricity'', ''water'', ''utility'']),
      (''shopping'', [''shop'', ''store'', ''market'', ''mall'', ''purchase'']),
      (''food'', [''food'', ''restaurant'', ''cafe'', ''meal'', ''grocery'']),
      (''transport'', [''transport'', ''uber'', ''taxi'', ''fare'', ''ride'']),
      (''entertainment'', [''entertainment'', ''movie'', ''cinema'', ''game'', ''ticket'']),
      (''education'', [''school'', ''tuition'', ''fee'', ''education'', ''college'']),
      (''health'', [''health'', ''hospital'', ''medical'', ''pharmacy'', ''doctor'']),
      (''transfer'', [''transfer'', ''sent to'', ''received from'']),
      (''airtime'', [''airtime'', ''data'', ''bundle'', ''credit'', ''recharge'']),
      (''withdrawal'', [''withdraw'', ''atm'', ''agent'', ''cash out'']),
      (''deposit'', [''deposit'', ''cash in'', ''load'']),
      (''salary'', [''salary'', ''payroll'', ''wage'', ''income'']),
      (''savings'', [''save'', ''savings'', ''investment'']),
      (''loan'', [''loan'', ''borrow'', ''credit'', ''debt'']),
      (''other'', [])]"

definition momo_indicators :: "string list" where
  "momo_indicators = [''momo'', ''mobile money'', ''transaction'', ''received'',
                      ''sent'', ''cash in'', ''cash out'', ''withdraw'', ''deposit'']"

definition is_momo_sms :: "message \<Rightarrow> bool" where
  "is_momo_sms message =
     (case message ''@body'' of
        None \<Rightarrow> False
      | Some b \<Rightarrow> any_in momo_indicators (lower b))"

text \<open>The loop of \<open>categorize_transaction\<close> over \<open>CATEGORIES.items()\<close>.\<close>

fun categorize_loop :: "(string \<times> string list) list \<Rightarrow> string \<Rightarrow> string" where
  "categorize_loop [] description = ''other''"
| "categorize_loop ((cat, keywords) # rest) description =
     (if any_in keywords description then cat else categorize_loop rest description)"

definition categorize_transaction :: "string \<Rightarrow> string" where
  "categorize_transaction description = categorize_loop CATEGORIES description"

definition amount_patterns :: "pattern list" where
  "amount_patterns =
     [lits ''RWF'' @ [Rep is_space 0, Grp is_num_char 1],
      [Grp is_num_char 1, Rep is_space 0] @ lits ''RWF'',
      lits ''amount'' @ [Rep is_colon_space 0] @ lits ''RWF'' @ [Rep is_space 0, Grp is_num_char 1],
      lits ''amount'' @ [Rep is_colon_space 0, Grp is_num_char 1],
      [Grp is_num_char 1, Rep is_space 0] @ lits ''francs'']"

text \<open>\<open>amount_str = match.group(1).replace(',', '')\<close>\<close>

definition remove_commas :: "string \<Rightarrow> string" where
  "remove_commas s = filter (\<lambda>c. c \<noteq> CHR '','') s"

text \<open>
  The loop over \<open>amount_patterns\<close>: \<open>break\<close> returns the parsed amount, \<open>continue\<close> and a
  pattern without a match go on with the amount unchanged.
\<close>

fun amount_loop :: "pattern list \<Rightarrow> string \<Rightarrow> rat \<Rightarrow> rat" where
  "amount_loop [] body amount = amount"
| "amount_loop (p # ps) body amount =
     (case rx_search True p body of
        None \<Rightarrow> amount_loop ps body amount
      | Some (m, g) \<Rightarrow>
          (case py_float (remove_commas g) of
             Some v \<Rightarrow> v
           | None \<Rightarrow> amount_loop ps body amount))"

definition extract_amount :: "string \<Rightarrow> rat" where
  "extract_amount body = amount_loop amount_patterns body 0"

definition transaction_type :: "string \<Rightarrow> txn_type" where
  "transaction_type body_lower =
     (if any_in CASH_IN_KEYWORDS body_lower then CASH_IN
      else if any_in CASH_OUT_KEYWORDS body_lower then CASH_OUT
      else OTHER)"

definition phone_pattern :: pattern where
  "phone_pattern = [One is_plus_or_zero, Rep is_digit_space 9]"

definition extract_phone :: "string \<Rightarrow> string option" where
  "extract_phone body =
     (case rx_search False phone_pattern body of
        Some (m, g) \<Rightarrow> Some (strip m)
      | None \<Rightarrow> None)"

definition ref_patterns :: "pattern list" where
  "ref_patterns =
     [lits ''ref'' @ [Rep is_colon_space 0, Grp is_word 1],
      lits ''reference'' @ [Rep is_colon_space 0, Grp is_word 1],
      lits ''id'' @ [Rep is_colon_space 0, Grp is_word 1]]"

fun reference_loop :: "pattern list \<Rightarrow> string \<Rightarrow> string option" where
  "reference_loop [] body = None"
| "reference_loop (p # ps) body =
     (case rx_search True p body of
        Some (m, g) \<Rightarrow> Some g
      | None \<Rightarrow> reference_loop ps body)"

definition extract_reference :: "string \<Rightarrow> string option" where
  "extract_reference body = reference_loop ref_patterns body"

text \<open>The record the extractor returns, under the keys of the source's \<open>dict\<close>.\<close>

record transaction =
  date :: string
  description :: string
  amount :: rat
  type :: txn_type
  category :: string
  phone :: "string option"
  reference :: "string option"
  processed_date :: string

record dead_letter =
  dl_message :: message
  dl_error :: string
  dl_timestamp :: string

text \<open>
  What the processor reads from outside: the clock (\<open>datetime.now()\<close>, rendered),
  \<open>datetime.fromtimestamp\<close> of the platform rendered by \<open>strftime\<close> (it raises \<open>ValueError\<close>,
  \<open>OverflowError\<close> or \<open>OSError\<close> outside the range the platform supports), the digit limit
  of \<open>int\<close>, and whether the dead-letter file can be written.
\<close>

record platform =
  now :: string
  now_compact :: string
  fromtimestamp :: "rat \<Rightarrow> exn + string"
  int_max_str_digits :: nat
  dead_letter_writable :: bool

text \<open>
  The state of a run: \<open>self.transactions\<close> and the dead-letter records written so far, in
  the order of writing. (The file name is made of the clock's second, so a record written
  in the same second as an earlier one replaces its file; the list keeps every write.)
\<close>

record proc_state =
  transactions :: "transaction list"
  dead_letters :: "dead_letter list"

text \<open>
  The timestamp: the inner \<open>try\<close> of \<open>extract_transaction_details\<close>. Its \<open>except\<close> takes
  \<open>ValueError\<close> and \<open>TypeError\<close> to the clock; any other exception leaves the block.
  (The text of the \<open>ValueError\<close> of \<open>int\<close> is cut short: that exception is always caught.)
\<close>

definition timestamp_try :: "platform \<Rightarrow> string \<Rightarrow> exn + string" where
  "timestamp_try env date_str =
     (case py_int (int_max_str_digits env) date_str of
        None \<Rightarrow> Inl (ValueError, ''invalid literal for int() with base 10'')
      | Some n \<Rightarrow>
          (case py_truediv n 1000 of
             Inl e \<Rightarrow> Inl e
           | Inr x \<Rightarrow> fromtimestamp env x))"

definition resolve_date :: "platform \<Rightarrow> string \<Rightarrow> exn + string" where
  "resolve_date env date_str =
     (if date_str \<noteq> [] then
        (case timestamp_try env date_str of
           Inr d \<Rightarrow> Inr d
         | Inl e \<Rightarrow> if fst e = ValueError \<or> fst e = TypeError then Inr (now env) else Inl e)
      else Inr (now env))"

text \<open>\<open>str(KeyError('@body'))\<close> is the \<open>repr\<close> of the key.\<close>

definition key_error :: "string \<Rightarrow> exn" where
  "key_error k = (KeyError, [CHR 0x27] @ k @ [CHR 0x27])"

text \<open>The body of the outer \<open>try\<close> of \<open>extract_transaction_details\<close>.\<close>

definition extract_try :: "platform \<Rightarrow> message \<Rightarrow> exn + transaction" where
  "extract_try env message =
     (case message ''@body'' of
        None \<Rightarrow> Inl (key_error ''@body'')
      | Some body \<Rightarrow>
          (let date_str = (case message ''@date'' of None \<Rightarrow> [] | Some d \<Rightarrow> d) in
           case resolve_date env date_str of
             Inl e \<Rightarrow> Inl e
           | Inr d \<Rightarrow>
               (let body_lower = lower body in
                Inr \<lparr> date = d,
                      description = body,
                      amount = extract_amount body,
                      type = transaction_type body_lower,
                      category = categorize_transaction body_lower,
                      phone = extract_phone body,
                      reference = extract_reference body,
                      processed_date = now env \<rparr>)))"

text \<open>
  \<open>save_to_dead_letter\<close> writes one file; an error while writing is logged and swallowed,
  and then no record exists.
\<close>

definition save_to_dead_letter :: "platform \<Rightarrow> message \<Rightarrow> string \<Rightarrow> proc_state \<Rightarrow> proc_state" where
  "save_to_dead_letter env message error st =
     (if dead_letter_writable env
      then st \<lparr> dead_letters := dead_letters st @
                  [\<lparr> dl_message = message, dl_error = error, dl_timestamp = now_compact env \<rparr>] \<rparr>
      else st)"

definition extract_transaction_details ::
  "platform \<Rightarrow> message \<Rightarrow> proc_state \<Rightarrow> transaction option \<times> proc_state" where
  "extract_transaction_details env message st =
     (case extract_try env message of
        Inr t \<Rightarrow> (Some t, st)
      | Inl e \<Rightarrow> (None, save_to_dead_letter env message (snd e) st))"

text \<open>One round of the loop of \<open>process\<close>, and the loop.\<close>

definition process_message :: "platform \<Rightarrow> message \<Rightarrow> proc_state \<Rightarrow> proc_state" where
  "process_message env message st =
     (if is_momo_sms message then
        (case extract_transaction_details env message st of
           (Some t, st') \<Rightarrow> st' \<lparr> transactions := transactions st' @ [t] \<rparr>
         | (None, st') \<Rightarrow> st')
      else st)"

fun process_messages :: "platform \<Rightarrow> message list \<Rightarrow> proc_state \<Rightarrow> proc_state" where
  "process_messages env [] st = st"
| "process_messages env (message # messages) st =
     process_messages env messages (process_message env message st)"

section \<open>Statistics\<close>

text \<open>
  A value of the statistics \<open>dict\<close>: a count, a sum or mean of amounts, or the \<open>nan\<close> that
  \<open>Series.mean()\<close> gives on a column without rows (pandas does not raise there).
  Amounts are the exact decimals (see \<open>py_float\<close>), so sums are exact.
\<close>

datatype stat_value = IntV int | NumV rat | NaN

type_synonym stats = "(string \<times> stat_value) list"

text \<open>\<open>stats[k] = v\<close> on a \<open>dict\<close> kept as an association list.\<close>

fun dict_set :: "string \<Rightarrow> stat_value \<Rightarrow> stats \<Rightarrow> stats" where
  "dict_set k v [] = [(k, v)]"
| "dict_set k v ((k', v') # rest) =
     (if k = k' then (k, v) # rest else (k', v') # dict_set k v rest)"

definition type_name :: "txn_type \<Rightarrow> string" where
  "type_name t = (case t of CASH_IN \<Rightarrow> ''CASH_IN'' | CASH_OUT \<Rightarrow> ''CASH_OUT'' | OTHER \<Rightarrow> ''OTHER'')"

text \<open>\<open>df['amount'].mean()\<close>\<close>

definition series_mean :: "rat list \<Rightarrow> stat_value" where
  "series_mean xs = (if length xs = 0 then NaN else NumV (sum_list xs / of_nat (length xs)))"

text \<open>
  \<open>Series.value_counts().to_dict()\<close> and \<open>groupby('category')['amount'].sum().to_dict()\<close>:
  one entry for each value that occurs. pandas orders the first by falling count and the
  second by key; a \<open>dict\<close> is the same mapping in any order, and the order is not modelled.
\<close>

definition value_counts :: "'a list \<Rightarrow> ('a \<times> nat) list" where
  "value_counts xs = map (\<lambda>x. (x, count_list xs x)) (remdups xs)"

definition category_amounts :: "transaction list \<Rightarrow> (string \<times> rat) list" where
  "category_amounts df =
     map (\<lambda>c. (c, sum_list (map amount (filter (\<lambda>t. category t = c) df))))
       (remdups (map category df))"

definition calculate_stats :: "transaction list \<Rightarrow> stats" where
  "calculate_stats txs =
     (if txs = [] then []
      else
        (let df = txs;
             stats = dict_set ''total_transactions'' (IntV (int (length df))) [];
             stats = dict_set ''total_amount'' (NumV (sum_list (map amount df))) stats;
             stats = dict_set ''avg_transaction_amount'' (series_mean (map amount df)) stats;
             stats = foldl (\<lambda>st (t, n). dict_set (''count_'' @ lower (type_name t)) (IntV (int n)) st)
                       stats (value_counts (map type df));
             stats = foldl (\<lambda>st (c, n). dict_set (''count_category_'' @ c) (IntV (int n)) st)
                       stats (value_counts (map category df));
             stats = foldl (\<lambda>st (c, a). dict_set (''amount_category_'' @ c) (NumV a) st)
                       stats (category_amounts df)
         in stats))"

text \<open>Reading a snapshot: the number a value stands for, and the sum over the keys \<open>p*\<close>.\<close>

definition stat_num :: "stat_value \<Rightarrow> rat" where
  "stat_num v = (case v of IntV n \<Rightarrow> of_int n | NumV r \<Rightarrow> r | NaN \<Rightarrow> 0)"

definition sum_prefixed :: "string \<Rightarrow> stats \<Rightarrow> rat" where
  "sum_prefixed p st = sum_list (map (\<lambda>(k, v). stat_num v) (filter (\<lambda>(k, v). is_prefix p k) st))"

text \<open>The key \<open>f'count_{type_name.lower()}'\<close>, and the four groups of entries of a snapshot.\<close>

definition type_key :: "txn_type \<Rightarrow> string" where
  "type_key t = ''count_'' @ lower (type_name t)"

definition base_stats :: "transaction list \<Rightarrow> stats" where
  "base_stats df =
     [(''total_transactions'', IntV (int (length df))),
      (''total_amount'', NumV (sum_list (map amount df))),
      (''avg_transaction_amount'', series_mean (map amount df))]"

definition type_stats :: "transaction list \<Rightarrow> stats" where
  "type_stats df = map (\<lambda>(t, n). (type_key t, IntV (int n))) (value_counts (map type df))"

definition count_stats :: "transaction list \<Rightarrow> stats" where
  "count_stats df =
     map (\<lambda>(c, n). (''count_category_'' @ c, IntV (int n))) (value_counts (map category df))"

definition amount_stats :: "transaction list \<Rightarrow> stats" where
  "amount_stats df = map (\<lambda>(c, a). (''amount_category_'' @ c, NumV a)) (category_amounts df)"

text \<open>A transaction for the examples.\<close>

definition tx_example :: "rat \<Rightarrow> string \<Rightarrow> transaction" where
  "tx_example a c =
     \<lparr> date = ''2023-05-01 08:15:00'', description = ''received'', amount = a, type = CASH_IN,
       category = c, phone = None, reference = None, processed_date = ''2023-05-02 00:00:00'' \<rparr>"

section \<open>Example inputs\<close>

text \<open>A platform, an empty run and messages, for the examples below.\<close>

definition platform_example :: platform where
  "platform_example =
     \<lparr> now = ''2023-05-02 10:00:00'', now_compact = ''20230502100000'',
       fromtimestamp = (\<lambda>x. Inr ''2023-05-02 07:55:00''),
       int_max_str_digits = 4300, dead_letter_writable = True \<rparr>"

definition empty_state :: proc_state where
  "empty_state = \<lparr> transactions = [], dead_letters = [] \<rparr>"

definition hello_message :: message where
  "hello_message = [''@body'' \<mapsto> ''Hello, how are you?'', ''@date'' \<mapsto> ''1683014100000'']"

definition no_body_message :: message where
  "no_body_message = [''@date'' \<mapsto> ''1683014100000'', ''@address'' \<mapsto> ''MoMo'']"

definition paid_message :: message where
  "paid_message = [''@body'' \<mapsto> ''Transaction: you PAID 300 RWF to the shop'', ''@date'' \<mapsto> ''1683014100000'']"

definition huge_date :: string where
  "huge_date = CHR ''1'' # replicate 400 (CHR ''0'')"

definition huge_date_message :: message where
  "huge_date_message = [''@body'' \<mapsto> ''You have received RWF 500 from JOHN'', ''@date'' \<mapsto> huge_date]"

section \<open>Notions for the statements\<close>

text \<open>
  The specification's words for the amount step, "each candidate number string has grouping
  commas stripped before numeric parse", written on their own and not through the code's
  \<open>replace\<close>: \<open>without_commas\<close> goes through the string and leaves every comma out, and
  \<open>amount_candidate\<close> is the number a pattern yields, which is the parse of its capture
  without the commas, if the pattern matches (ignoring case) and the parse succeeds.
\<close>

fun without_commas :: "string \<Rightarrow> string" where
  "without_commas [] = []"
| "without_commas (c # cs) = (if c = CHR '','' then without_commas cs else c # without_commas cs)"

definition amount_candidate :: "pattern \<Rightarrow> string \<Rightarrow> rat option" where
  "amount_candidate p body =
     (case rx_search True p body of
        None \<Rightarrow> None
      | Some (m, g) \<Rightarrow> py_float (without_commas g))"

text \<open>An item whose class does not tell an upper-case letter from its lower-case one.\<close>

definition ci_ok :: "item \<Rightarrow> bool" where
  "ci_ok it =
     (case it of
        Lit c \<Rightarrow> True
      | One cls \<Rightarrow> (\<forall>c. cls (to_lower c) = cls c)
      | Rep cls n \<Rightarrow> (\<forall>c. cls (to_lower c) = cls c)
      | Grp cls n \<Rightarrow> (\<forall>c. cls (to_lower c) = cls c))"

text \<open>The message of the scenario of the specification, with the attributes of the test suite.\<close>

definition scenario_body :: string where
  "scenario_body = ''You have received RWF 500000 from JOHN DOE (0244123456) on 01/05/23 at 08:15 AM. Reference: TX123456789. Fee charged: RWF 0. Available Balance: RWF 1250000''"

definition scenario_message :: message where
  "scenario_message =
     [''@body'' \<mapsto> scenario_body, ''@date'' \<mapsto> ''1683014100000'', ''@address'' \<mapsto> ''MoMo'']"

section \<open>The categorizer\<close>

lemma categorize_loop_find:
  "categorize_loop cs d =
     (case List.find (\<lambda>(c, kws). any_in kws d) cs of Some (c, kws) \<Rightarrow> c | None \<Rightarrow> ''other'')"
  by (induction cs d rule: categorize_loop.induct) auto

lemma CATEGORIES_labels:
  "map fst CATEGORIES =
     [''bills'', ''shopping'', ''food'', ''transport'', ''entertainment'', ''education'',
      ''health'', ''transfer'', ''airtime'', ''withdrawal'', ''deposit'', ''salary'',
      ''savings'', ''loan'', ''other'']"
  by (simp add: CATEGORIES_def)

lemma CATEGORIES_other: "(c, kws) \<in> set CATEGORIES \<Longrightarrow> c = ''other'' \<Longrightarrow> kws = []"
  by (auto simp: CATEGORIES_def)

lemma other_in_CATEGORIES: "(''other'', []) \<in> set CATEGORIES"
  by (simp add: CATEGORIES_def)

lemma any_in_Nil: "\<not> any_in [] d"
  by (simp add: any_in_def)

lemma categorize_loop_label:
  "categorize_loop cs d \<in> insert ''other'' (fst ` set cs)"
  by (induction cs d rule: categorize_loop.induct) auto

lemma categorize_first:
  assumes "i < length cs" "any_in (snd (cs ! i)) d" "\<forall>j<i. \<not> any_in (snd (cs ! j)) d"
  shows "categorize_loop cs d = fst (cs ! i)"
proof -
  have "List.find (\<lambda>(c, kws). any_in kws d) cs = Some (cs ! i)"
    unfolding find_Some_iff using assms by (auto simp: case_prod_beta)
  then show ?thesis by (simp add: categorize_loop_find case_prod_beta)
qed

lemma categorize_other_iff:
  "categorize_transaction d = ''other'' \<longleftrightarrow>
     (\<forall>(c, kws) \<in> set CATEGORIES. c \<noteq> ''other'' \<longrightarrow> \<not> any_in kws d)"
proof
  assume a: "categorize_transaction d = ''other''"
  show "\<forall>(c, kws) \<in> set CATEGORIES. c \<noteq> ''other'' \<longrightarrow> \<not> any_in kws d"
  proof (cases "List.find (\<lambda>(c, kws). any_in kws d) CATEGORIES")
    case None
    then show ?thesis by (auto simp: find_None_iff)
  next
    case (Some p)
    obtain c kws where p: "p = (c, kws)" by (cases p)
    from Some p have "c = ''other''"
      using a by (simp add: categorize_transaction_def categorize_loop_find)
    moreover from Some p have "(c, kws) \<in> set CATEGORIES" "any_in kws d"
      by (auto simp: find_Some_iff in_set_conv_nth)
    ultimately show ?thesis using CATEGORIES_other any_in_Nil by blast
  qed
next
  assume a: "\<forall>(c, kws) \<in> set CATEGORIES. c \<noteq> ''other'' \<longrightarrow> \<not> any_in kws d"
  have "\<not> any_in kws d" if "(c, kws) \<in> set CATEGORIES" for c kws
    using a that CATEGORIES_other [of c kws] any_in_Nil by (cases "c = ''other''") auto
  then have "List.find (\<lambda>(c, kws). any_in kws d) CATEGORIES = None"
    by (auto simp: find_None_iff)
  then show "categorize_transaction d = ''other''"
    by (simp add: categorize_transaction_def categorize_loop_find)
qed

text \<open>
  Claim C3. \<open>categorize_transaction\<close> is total: for every input string it returns one
  label of the fixed set of 15 labels; it goes through the categories in the order of their
  declaration and returns the first one with a keyword that occurs in the input; and it
  returns \<open>other\<close> exactly when no keyword of the 14 other categories occurs in the input.
\<close>

theorem categorize_transaction_total:
  "categorize_transaction d \<in> set (map fst CATEGORIES) \<and>
   length CATEGORIES = 15 \<and> distinct (map fst CATEGORIES) \<and>
   (\<forall>i<length CATEGORIES.
      any_in (snd (CATEGORIES ! i)) d \<and> (\<forall>j<i. \<not> any_in (snd (CATEGORIES ! j)) d) \<longrightarrow>
      categorize_transaction d = fst (CATEGORIES ! i)) \<and>
   (categorize_transaction d = ''other'' \<longleftrightarrow>
      (\<forall>(c, kws) \<in> set CATEGORIES. c \<noteq> ''other'' \<longrightarrow> \<not> any_in kws d))"
proof -
  have "categorize_transaction d \<in> set (map fst CATEGORIES)"
    using categorize_loop_label [of CATEGORIES d] other_in_CATEGORIES
    by (force simp: categorize_transaction_def)
  moreover have "length CATEGORIES = 15" by (simp add: CATEGORIES_def)
  moreover have "distinct (map fst CATEGORIES)" by (simp add: CATEGORIES_labels)
  moreover have "\<forall>i<length CATEGORIES.
      any_in (snd (CATEGORIES ! i)) d \<and> (\<forall>j<i. \<not> any_in (snd (CATEGORIES ! j)) d) \<longrightarrow>
      categorize_transaction d = fst (CATEGORIES ! i)"
    using categorize_first [of _ CATEGORIES d] by (simp add: categorize_transaction_def)
  ultimately show ?thesis using categorize_other_iff [of d] by blast
qed

theorem categorize_transaction_total_witness:
  "any_in (snd (CATEGORIES ! 5)) ''school fee paid'' \<and>
   \<not> (\<exists>j<5. any_in (snd (CATEGORIES ! j)) ''school fee paid'') \<and>
   categorize_transaction ''school fee paid'' = ''education'' \<and>
   categorize_transaction ''school fee paid'' \<noteq> ''other'' \<and>
   (\<exists>(c, kws) \<in> set CATEGORIES. c \<noteq> ''other'' \<and> any_in kws ''school fee paid'')"
proof -
  have h1: "any_in (snd (CATEGORIES ! 5)) ''school fee paid''" by code_simp
  have "\<forall>j \<in> set [0..<5]. \<not> any_in (snd (CATEGORIES ! j)) ''school fee paid''" by code_simp
  then have h2: "\<forall>j<5. \<not> any_in (snd (CATEGORIES ! j)) ''school fee paid''" by simp
  have h3: "(5::nat) < length CATEGORIES" by (simp add: CATEGORIES_def)
  have h4: "fst (CATEGORIES ! 5) = ''education''" by (simp add: CATEGORIES_def)
  from categorize_transaction_total [of "''school fee paid''"] h1 h2 h3 h4
  have r: "categorize_transaction ''school fee paid'' = ''education''" by metis
  with categorize_transaction_total [of "''school fee paid''"] h1 h2 show ?thesis
    by auto
qed

section \<open>The statistics\<close>

lemma dict_set_fresh: "k \<notin> fst ` set st \<Longrightarrow> dict_set k v st = st @ [(k, v)]"
  by (induction st) auto

lemma fold_dict_set_fresh:
  assumes "inj kf" "distinct (map fst es)" "\<forall>e \<in> set es. kf (fst e) \<notin> fst ` set st"
  shows "foldl (\<lambda>st (c, x). dict_set (kf c) (vf x) st) st es = st @ map (\<lambda>(c, x). (kf c, vf x)) es"
  using assms
proof (induction es arbitrary: st)
  case Nil
  then show ?case by simp
next
  case (Cons e es)
  obtain c x where e: "e = (c, x)" by (cases e)
  have fresh: "kf c \<notin> fst ` set st" using Cons.prems(3) e by simp
  have step: "dict_set (kf c) (vf x) st = st @ [(kf c, vf x)]"
    by (rule dict_set_fresh [OF fresh])
  have "\<forall>e' \<in> set es. kf (fst e') \<notin> fst ` set (st @ [(kf c, vf x)])"
  proof
    fix e' assume e': "e' \<in> set es"
    then have "fst e' \<noteq> c" using Cons.prems(2) e by force
    then have "kf (fst e') \<noteq> kf c" using Cons.prems(1) by (auto dest: injD)
    moreover have "kf (fst e') \<notin> fst ` set st" using Cons.prems(3) e' by simp
    ultimately show "kf (fst e') \<notin> fst ` set (st @ [(kf c, vf x)])" by auto
  qed
  with Cons.IH [of "st @ [(kf c, vf x)]"] Cons.prems(1,2) e step show ?case by simp
qed

lemma inj_prefix: "inj (\<lambda>c. p @ c)"
  by (simp add: inj_on_def)

lemma distinct_value_counts: "distinct (map fst (value_counts xs))"
  by (simp add: value_counts_def comp_def)

lemma distinct_category_amounts: "distinct (map fst (category_amounts df))"
  by (simp add: category_amounts_def comp_def)

lemma sum_count_remdups: "sum_list (map (count_list xs) (remdups xs)) = length xs"
proof -
  have "sum_list (map (count_list xs) (remdups xs)) = sum (count_list xs) (set xs)"
    by (simp add: sum_list_distinct_conv_sum_set)
  also have "\<dots> = length xs" by (rule sum_count_set) auto
  finally show ?thesis .
qed

lemma sum_groups:
  fixes f :: "'a \<Rightarrow> rat"
  assumes "finite C" "g ` set xs \<subseteq> C"
  shows "(\<Sum>c\<in>C. sum_list (map f (filter (\<lambda>x. g x = c) xs))) = sum_list (map f xs)"
  using assms(2)
proof (induction xs)
  case Nil
  then show ?case by simp
next
  case (Cons x xs)
  have "(\<Sum>c\<in>C. sum_list (map f (filter (\<lambda>y. g y = c) (x # xs))))
      = (\<Sum>c\<in>C. (if c = g x then f x else 0) + sum_list (map f (filter (\<lambda>y. g y = c) xs)))"
    by (rule sum.cong) auto
  also have "\<dots> = (\<Sum>c\<in>C. (if c = g x then f x else 0)) + (\<Sum>c\<in>C. sum_list (map f (filter (\<lambda>y. g y = c) xs)))"
    by (simp add: sum.distrib)
  also have "(\<Sum>c\<in>C. (if c = g x then f x else 0)) = f x"
    using assms(1) Cons.prems by (simp add: sum.delta')
  finally show ?case using Cons by simp
qed

lemma sum_groups_remdups:
  fixes f :: "'a \<Rightarrow> rat"
  shows "sum_list (map (\<lambda>c. sum_list (map f (filter (\<lambda>x. g x = c) xs))) (remdups (map g xs)))
         = sum_list (map f xs)"
proof -
  have "sum_list (map (\<lambda>c. sum_list (map f (filter (\<lambda>x. g x = c) xs))) (remdups (map g xs)))
      = (\<Sum>c\<in>set (map g xs). sum_list (map f (filter (\<lambda>x. g x = c) xs)))"
    by (simp add: sum_list_distinct_conv_sum_set)
  also have "\<dots> = sum_list (map f xs)"
    by (rule sum_groups) auto
  finally show ?thesis .
qed

lemma is_prefix_append: "is_prefix p (p @ c)"
  by (induction p) auto

lemma type_key_simps:
  "type_key CASH_IN = ''count_cash_in''"
  "type_key CASH_OUT = ''count_cash_out''"
  "type_key OTHER = ''count_other''"
  by code_simp+

lemma inj_type_key: "inj type_key"
proof (rule injI)
  fix x y assume "type_key x = type_key y"
  then show "x = y" by (cases x; cases y) (simp_all add: type_key_simps)
qed

lemma type_key_no_category:
  "\<not> is_prefix ''count_category_'' (type_key t)" "\<not> is_prefix ''amount_category_'' (type_key t)"
  by (cases t; simp add: type_key_simps)+

lemma type_key_fresh:
  "type_key t \<notin> {''total_transactions'', ''total_amount'', ''avg_transaction_amount''}"
  by (cases t) (simp_all add: type_key_simps)

lemma base_keys: "k \<in> fst ` set (base_stats df) \<Longrightarrow>
   \<not> is_prefix ''count_category_'' k \<and> \<not> is_prefix ''amount_category_'' k \<and>
   \<not> is_prefix ''count_'' k"
  by (auto simp: base_stats_def)

lemma type_keys: "k \<in> fst ` set (type_stats df) \<Longrightarrow>
   \<not> is_prefix ''count_category_'' k \<and> \<not> is_prefix ''amount_category_'' k"
  by (auto simp: type_stats_def type_key_no_category)

lemma count_keys: "k \<in> fst ` set (count_stats df) \<Longrightarrow>
   is_prefix ''count_category_'' k \<and> \<not> is_prefix ''amount_category_'' k"
  by (auto simp: count_stats_def)

lemma amount_keys: "k \<in> fst ` set (amount_stats df) \<Longrightarrow>
   is_prefix ''amount_category_'' k \<and> \<not> is_prefix ''count_category_'' k"
  by (auto simp: amount_stats_def)

lemma calculate_stats_nonempty:
  assumes "txs \<noteq> []"
  shows "calculate_stats txs = base_stats txs @ type_stats txs @ count_stats txs @ amount_stats txs"
proof -
  have b: "dict_set ''avg_transaction_amount'' (series_mean (map amount txs))
             (dict_set ''total_amount'' (NumV (sum_list (map amount txs)))
               (dict_set ''total_transactions'' (IntV (int (length txs))) [])) = base_stats txs"
    by (simp add: base_stats_def)
  have t: "foldl (\<lambda>st (t, n). dict_set (''count_'' @ lower (type_name t)) (IntV (int n)) st)
             (base_stats txs) (value_counts (map type txs)) = base_stats txs @ type_stats txs"
  proof -
    have "foldl (\<lambda>st (t, n). dict_set (type_key t) (IntV (int n)) st)
             (base_stats txs) (value_counts (map type txs))
          = base_stats txs @ map (\<lambda>(t, n). (type_key t, IntV (int n))) (value_counts (map type txs))"
    proof (rule fold_dict_set_fresh [OF inj_type_key distinct_value_counts])
      show "\<forall>e\<in>set (value_counts (map type txs)). type_key (fst e) \<notin> fst ` set (base_stats txs)"
        using type_key_fresh by (auto simp: base_stats_def)
    qed
    then show ?thesis by (simp add: type_stats_def type_key_def)
  qed
  have c: "foldl (\<lambda>st (c, n). dict_set (''count_category_'' @ c) (IntV (int n)) st)
             (base_stats txs @ type_stats txs) (value_counts (map category txs))
           = base_stats txs @ type_stats txs @ count_stats txs"
    unfolding count_stats_def append_assoc [symmetric]
  proof (rule fold_dict_set_fresh [OF inj_prefix distinct_value_counts])
    show "\<forall>e\<in>set (value_counts (map category txs)).
            ''count_category_'' @ fst e \<notin> fst ` set (base_stats txs @ type_stats txs)"
    proof
      fix e
      have "is_prefix ''count_category_'' (''count_category_'' @ fst e)" by (rule is_prefix_append)
      then show "''count_category_'' @ fst e \<notin> fst ` set (base_stats txs @ type_stats txs)"
        using base_keys [of "''count_category_'' @ fst e" txs] type_keys [of "''count_category_'' @ fst e" txs]
        by (auto simp: image_Un)
    qed
  qed
  have a: "foldl (\<lambda>st (c, a). dict_set (''amount_category_'' @ c) (NumV a) st)
             (base_stats txs @ type_stats txs @ count_stats txs) (category_amounts txs)
           = (base_stats txs @ type_stats txs @ count_stats txs) @ amount_stats txs"
    unfolding amount_stats_def
  proof (rule fold_dict_set_fresh [OF inj_prefix distinct_category_amounts])
    show "\<forall>e\<in>set (category_amounts txs).
            ''amount_category_'' @ fst e \<notin> fst ` set (base_stats txs @ type_stats txs @ count_stats txs)"
    proof
      fix e
      have "is_prefix ''amount_category_'' (''amount_category_'' @ fst e)" by (rule is_prefix_append)
      then show "''amount_category_'' @ fst e \<notin> fst ` set (base_stats txs @ type_stats txs @ count_stats txs)"
        using base_keys [of "''amount_category_'' @ fst e" txs] type_keys [of "''amount_category_'' @ fst e" txs]
          count_keys [of "''amount_category_'' @ fst e" txs]
        by (auto simp: image_Un)
    qed
  qed
  show ?thesis
    unfolding calculate_stats_def Let_def
    by (simp only: assms if_False b t c a append_assoc)
qed

lemma sum_prefixed_append: "sum_prefixed p (a @ b) = sum_prefixed p a + sum_prefixed p b"
  by (simp add: sum_prefixed_def)

lemma sum_prefixed_none:
  "(\<And>k. k \<in> fst ` set st \<Longrightarrow> \<not> is_prefix p k) \<Longrightarrow> sum_prefixed p st = 0"
proof -
  assume a: "\<And>k. k \<in> fst ` set st \<Longrightarrow> \<not> is_prefix p k"
  have "filter (\<lambda>(k, v). is_prefix p k) st = []"
    using a by (force simp: filter_empty_conv)
  then show ?thesis by (simp add: sum_prefixed_def)
qed

lemma sum_prefixed_all:
  "(\<And>k. k \<in> fst ` set st \<Longrightarrow> is_prefix p k) \<Longrightarrow>
   sum_prefixed p st = sum_list (map (\<lambda>(k, v). stat_num v) st)"
proof -
  assume a: "\<And>k. k \<in> fst ` set st \<Longrightarrow> is_prefix p k"
  have "filter (\<lambda>(k, v). is_prefix p k) st = st"
    using a by (force simp: filter_id_conv)
  then show ?thesis by (simp add: sum_prefixed_def)
qed

lemma sum_list_of_nat: "sum_list (map (\<lambda>x. (of_nat (f x) :: rat)) ys) = of_nat (sum_list (map f ys))"
  by (induction ys) auto

lemma sum_count_stats: "sum_list (map (\<lambda>(k, v). stat_num v) (count_stats df)) = of_nat (length df)"
proof -
  have "sum_list (map (\<lambda>(k, v). stat_num v) (count_stats df))
      = sum_list (map (\<lambda>c. (of_nat (count_list (map category df) c) :: rat)) (remdups (map category df)))"
    by (simp add: count_stats_def value_counts_def comp_def stat_num_def)
  also have "\<dots> = of_nat (sum_list (map (count_list (map category df)) (remdups (map category df))))"
    by (rule sum_list_of_nat)
  also have "\<dots> = of_nat (length df)"
    by (simp add: sum_count_remdups)
  finally show ?thesis .
qed

lemma sum_amount_stats:
  "sum_list (map (\<lambda>(k, v). stat_num v) (amount_stats df)) = sum_list (map amount df)"
proof -
  have "sum_list (map (\<lambda>(k, v). stat_num v) (amount_stats df))
      = sum_list (map (\<lambda>c. sum_list (map amount (filter (\<lambda>t. category t = c) df)))
          (remdups (map category df)))"
    by (simp add: amount_stats_def category_amounts_def comp_def stat_num_def)
  also have "\<dots> = sum_list (map amount df)"
    by (rule sum_groups_remdups)
  finally show ?thesis .
qed

lemma sum_count_category:
  assumes "txs \<noteq> []"
  shows "sum_prefixed ''count_category_'' (calculate_stats txs) = of_nat (length txs)"
proof -
  have "sum_prefixed ''count_category_'' (base_stats txs) = 0"
    by (rule sum_prefixed_none) (use base_keys in blast)
  moreover have "sum_prefixed ''count_category_'' (type_stats txs) = 0"
    by (rule sum_prefixed_none) (use type_keys in blast)
  moreover have "sum_prefixed ''count_category_'' (amount_stats txs) = 0"
    by (rule sum_prefixed_none) (use amount_keys in blast)
  moreover have "sum_prefixed ''count_category_'' (count_stats txs) = of_nat (length txs)"
    using sum_prefixed_all [of "count_stats txs" "''count_category_''"] count_keys [of _ txs]
    by (simp add: sum_count_stats)
  ultimately show ?thesis
    by (simp add: calculate_stats_nonempty [OF assms] sum_prefixed_append)
qed

lemma sum_amount_category:
  assumes "txs \<noteq> []"
  shows "sum_prefixed ''amount_category_'' (calculate_stats txs) = sum_list (map amount txs)"
proof -
  have "sum_prefixed ''amount_category_'' (base_stats txs) = 0"
    by (rule sum_prefixed_none) (use base_keys in blast)
  moreover have "sum_prefixed ''amount_category_'' (type_stats txs) = 0"
    by (rule sum_prefixed_none) (use type_keys in blast)
  moreover have "sum_prefixed ''amount_category_'' (count_stats txs) = 0"
    by (rule sum_prefixed_none) (use count_keys in blast)
  moreover have "sum_prefixed ''amount_category_'' (amount_stats txs) = sum_list (map amount txs)"
    using sum_prefixed_all [of "amount_stats txs" "''amount_category_''"] amount_keys [of _ txs]
    by (simp add: sum_amount_stats)
  ultimately show ?thesis
    by (simp add: calculate_stats_nonempty [OF assms] sum_prefixed_append)
qed

lemma totals_lookup:
  assumes "txs \<noteq> []"
  shows "map_of (calculate_stats txs) ''total_amount'' = Some (NumV (sum_list (map amount txs)))"
    and "map_of (calculate_stats txs) ''total_transactions'' = Some (IntV (int (length txs)))"
  by (simp_all add: calculate_stats_nonempty [OF assms] base_stats_def)

text \<open>
  Claim C8. For every batch of transactions that is not empty, the snapshot of
  \<open>calculate_stats\<close> reconciles: the values under the keys \<open>amount_category_*\<close> add up to
  \<open>total_amount\<close>, and the values under the keys \<open>count_category_*\<close> add up to
  \<open>total_transactions\<close>. Amounts are exact decimals here, so the sums agree exactly.
\<close>

theorem calculate_stats_reconcile:
  assumes "txs \<noteq> []"
  shows "map_of (calculate_stats txs) ''total_amount'' = Some (NumV (sum_list (map amount txs))) \<and>
         sum_prefixed ''amount_category_'' (calculate_stats txs) = sum_list (map amount txs) \<and>
         map_of (calculate_stats txs) ''total_transactions'' = Some (IntV (int (length txs))) \<and>
         sum_prefixed ''count_category_'' (calculate_stats txs) = of_nat (length txs)"
  using totals_lookup [OF assms] sum_amount_category [OF assms] sum_count_category [OF assms]
  by simp

theorem calculate_stats_reconcile_witness:
  "[tx_example 100 ''food'', tx_example 250 ''bills'', tx_example 50 ''food''] \<noteq> [] \<and>
   map_of (calculate_stats [tx_example 100 ''food'', tx_example 250 ''bills'', tx_example 50 ''food''])
     ''total_amount'' = Some (NumV 400) \<and>
   sum_prefixed ''amount_category_''
     (calculate_stats [tx_example 100 ''food'', tx_example 250 ''bills'', tx_example 50 ''food'']) = 400 \<and>
   map_of (calculate_stats [tx_example 100 ''food'', tx_example 250 ''bills'', tx_example 50 ''food''])
     ''total_transactions'' = Some (IntV 3) \<and>
   sum_prefixed ''count_category_''
     (calculate_stats [tx_example 100 ''food'', tx_example 250 ''bills'', tx_example 50 ''food'']) = 3"
proof -
  have h: "[tx_example 100 ''food'', tx_example 250 ''bills'', tx_example 50 ''food''] \<noteq> []"
    by simp
  show ?thesis
    using calculate_stats_reconcile [OF h] by (simp add: tx_example_def)
qed

lemma series_mean_NaN: "NaN = series_mean xs \<longleftrightarrow> xs = []"
  by (simp add: series_mean_def)

text \<open>
  Claim C9. \<open>calculate_stats\<close> on the empty batch returns the empty snapshot, with no key at
  all, and the mean is never taken over zero rows: no snapshot holds the \<open>nan\<close> that a
  division by a zero count would leave under \<open>avg_transaction_amount\<close>.
\<close>

theorem calculate_stats_empty:
  "calculate_stats [] = [] \<and>
   (\<forall>txs. (''avg_transaction_amount'', NaN) \<notin> set (calculate_stats txs))"
proof -
  have e: "calculate_stats [] = []" by (simp add: calculate_stats_def)
  have "(''avg_transaction_amount'', NaN) \<notin> set (calculate_stats txs)" for txs
  proof (cases "txs = []")
    case True
    then show ?thesis by (simp add: e)
  next
    case False
    have "(''avg_transaction_amount'', NaN) \<notin> set (base_stats txs)"
      using False by (simp add: base_stats_def series_mean_NaN)
    moreover have "(''avg_transaction_amount'', NaN) \<notin> set (type_stats txs)"
      by (auto simp: type_stats_def)
    moreover have "(''avg_transaction_amount'', NaN) \<notin> set (count_stats txs)"
      by (auto simp: count_stats_def)
    moreover have "(''avg_transaction_amount'', NaN) \<notin> set (amount_stats txs)"
      by (auto simp: amount_stats_def)
    ultimately show ?thesis by (simp add: calculate_stats_nonempty [OF False])
  qed
  with e show ?thesis by blast
qed

section \<open>The pipeline\<close>

lemma extract_try_no_body:
  "message ''@body'' = None \<Longrightarrow> extract_try env message = Inl (key_error ''@body'')"
  by (simp add: extract_try_def)

lemma extract_try_Inr:
  assumes "extract_try env message = Inr t"
  shows "\<exists>body. message ''@body'' = Some body \<and> description t = body \<and>
           amount t = extract_amount body \<and> type t = transaction_type (lower body) \<and>
           category t = categorize_transaction (lower body) \<and> phone t = extract_phone body \<and>
           reference t = extract_reference body \<and> processed_date t = now env"
  using assms by (auto simp: extract_try_def Let_def split: option.splits sum.splits)

lemma extract_try_date:
  assumes "message ''@body'' = Some body"
    and "resolve_date env (case message ''@date'' of None \<Rightarrow> [] | Some d \<Rightarrow> d) = Inr d"
  shows "extract_try env message =
           Inr \<lparr> date = d, description = body, amount = extract_amount body,
                 type = transaction_type (lower body),
                 category = categorize_transaction (lower body),
                 phone = extract_phone body, reference = extract_reference body,
                 processed_date = now env \<rparr>"
  using assms by (simp add: extract_try_def Let_def)

lemma is_momo_sms_body: "is_momo_sms message \<Longrightarrow> \<exists>body. message ''@body'' = Some body"
  by (auto simp: is_momo_sms_def split: option.splits)

lemma process_message_skip: "\<not> is_momo_sms message \<Longrightarrow> process_message env message st = st"
  by (simp add: process_message_def)

lemma process_message_momo:
  "is_momo_sms message \<Longrightarrow>
   process_message env message st =
     (case extract_try env message of
        Inr t \<Rightarrow> st \<lparr> transactions := transactions st @ [t] \<rparr>
      | Inl e \<Rightarrow> save_to_dead_letter env message (snd e) st)"
  by (simp add: process_message_def extract_transaction_details_def split: sum.splits)

lemma process_message_count:
  assumes "dead_letter_writable env"
  shows "length (transactions (process_message env message st)) +
         length (dead_letters (process_message env message st)) =
         length (transactions st) + length (dead_letters st) + (if is_momo_sms message then 1 else 0)"
  using assms
  by (cases "is_momo_sms message")
     (auto simp: process_message_momo process_message_skip save_to_dead_letter_def split: sum.splits)

lemma process_messages_count:
  assumes "dead_letter_writable env"
  shows "length (transactions (process_messages env messages st)) +
         length (dead_letters (process_messages env messages st)) =
         length (transactions st) + length (dead_letters st) + length (filter is_momo_sms messages)"
proof (induction messages arbitrary: st)
  case Nil
  then show ?case by simp
next
  case (Cons m ms)
  show ?case
    using Cons.IH [of "process_message env m st"] process_message_count [OF assms, of m st]
    by simp
qed

text \<open>
  Claim C1, amended. For every message that \<open>is_momo_sms\<close> classifies as a MoMo SMS (the
  only messages \<open>process\<close> hands to the extractor), exactly one of the two outcomes occurs:
  one transaction is appended to \<open>self.transactions\<close>, or one dead-letter record is written
  for it (where the dead-letter file can be written), never both and never neither. Over a
  batch, transactions and dead-letter records together grow by the number of MoMo messages;
  the other messages add nothing.
\<close>

theorem process_one_outcome:
  assumes "is_momo_sms message" and "dead_letter_writable env"
  shows "((\<exists>t. process_message env message st = st \<lparr> transactions := transactions st @ [t] \<rparr>) \<noteq>
          (\<exists>e. process_message env message st =
             st \<lparr> dead_letters := dead_letters st @
                   [\<lparr> dl_message = message, dl_error = e, dl_timestamp = now_compact env \<rparr>] \<rparr>)) \<and>
         length (transactions (process_messages env messages st)) +
         length (dead_letters (process_messages env messages st)) =
         length (transactions st) + length (dead_letters st) + length (filter is_momo_sms messages)"
proof -
  let ?A = "\<exists>t. process_message env message st = st \<lparr> transactions := transactions st @ [t] \<rparr>"
  let ?B = "\<exists>e. process_message env message st =
             st \<lparr> dead_letters := dead_letters st @
                   [\<lparr> dl_message = message, dl_error = e, dl_timestamp = now_compact env \<rparr>] \<rparr>"
  have one: "?A \<or> ?B"
  proof (cases "extract_try env message")
    case (Inl e)
    then have ?B
      using assms by (auto simp: process_message_momo save_to_dead_letter_def)
    then show ?thesis ..
  next
    case (Inr t)
    then have ?A using assms by (auto simp: process_message_momo)
    then show ?thesis ..
  qed
  have notboth: "\<not> (?A \<and> ?B)"
  proof
    assume "?A \<and> ?B"
    then obtain t e where
      "st \<lparr> transactions := transactions st @ [t] \<rparr> =
       st \<lparr> dead_letters := dead_letters st @
             [\<lparr> dl_message = message, dl_error = e, dl_timestamp = now_compact env \<rparr>] \<rparr>"
      by metis
    then have "transactions (st \<lparr> transactions := transactions st @ [t] \<rparr>) =
               transactions (st \<lparr> dead_letters := dead_letters st @
             [\<lparr> dl_message = message, dl_error = e, dl_timestamp = now_compact env \<rparr>] \<rparr>)"
      by (rule arg_cong)
    then show False by simp
  qed
  from one notboth have "?A \<noteq> ?B" by blast
  then show ?thesis using process_messages_count [OF assms(2)] by blast
qed

lemma paid_is_momo: "is_momo_sms paid_message"
  unfolding paid_message_def by code_simp

lemma hello_not_momo: "\<not> is_momo_sms hello_message"
  unfolding hello_message_def by code_simp

lemma no_body_not_momo: "\<not> is_momo_sms no_body_message"
  by (simp add: is_momo_sms_def no_body_message_def)

theorem process_one_outcome_witness:
  "is_momo_sms paid_message \<and> dead_letter_writable platform_example \<and>
   ((\<exists>t. process_message platform_example paid_message empty_state =
          empty_state \<lparr> transactions := transactions empty_state @ [t] \<rparr>) \<noteq>
    (\<exists>e. process_message platform_example paid_message empty_state =
          empty_state \<lparr> dead_letters := dead_letters empty_state @
            [\<lparr> dl_message = paid_message, dl_error = e,
               dl_timestamp = now_compact platform_example \<rparr>] \<rparr>)) \<and>
   length (transactions (process_messages platform_example [hello_message, paid_message] empty_state)) +
   length (dead_letters (process_messages platform_example [hello_message, paid_message] empty_state)) = 1"
proof -
  have w: "dead_letter_writable platform_example" by (simp add: platform_example_def)
  show ?thesis
    using process_one_outcome [OF paid_is_momo w, of empty_state "[hello_message, paid_message]"]
      paid_is_momo hello_not_momo w
    by (simp add: empty_state_def)
qed

text \<open>
  Claim C1 as stated fails: the message with the body \<open>Hello, how are you?\<close> is in the batch
  and yields neither a transaction nor a dead-letter record.
\<close>

theorem process_one_outcome_counterexample:
  "transactions (process_messages platform_example [hello_message] empty_state) = [] \<and>
   dead_letters (process_messages platform_example [hello_message] empty_state) = []"
  using hello_not_momo by (simp add: process_message_skip empty_state_def)

lemma contains_set: "contains k s \<Longrightarrow> set k \<subseteq> set s"
proof (induction s)
  case Nil
  then show ?case by simp
next
  case (Cons c cs)
  have p: "is_prefix a b \<Longrightarrow> set a \<subseteq> set b" for a b :: string
    by (induction a b rule: is_prefix.induct) auto
  from Cons show ?case using p [of k "c # cs"] by auto
qed

lemma int_strip_id:
  assumes "s \<noteq> []" "\<not> is_int_space (hd s)" "\<not> is_int_space (last s)"
  shows "int_strip s = s"
proof -
  have d: "dropWhile P xs = xs" if "xs \<noteq> []" "\<not> P (hd xs)" for P and xs :: string
    using that by (cases xs) auto
  have "dropWhile is_int_space s = s" using assms by (intro d)
  moreover have "dropWhile is_int_space (rev s) = rev s"
    using assms by (intro d) (simp_all add: hd_rev)
  ultimately show ?thesis by (simp add: int_strip_def)
qed

lemma digits_val_zeros: "foldl (\<lambda>a c. 10 * a + digit_val c) a (replicate n (CHR ''0'')) = a * 10 ^ n"
  by (induction n arbitrary: a) (simp_all add: digit_val_def)

lemma py_int_one_zeros:
  assumes "m = 0 \<or> Suc n \<le> m"
  shows "py_int m (CHR ''1'' # replicate n (CHR ''0'')) = Some (10 ^ n)"
proof -
  let ?s = "CHR ''1'' # replicate n (CHR ''0'')"
  have digs: "\<forall>c \<in> set ?s. is_digit c" by (auto simp: is_digit_def)
  have st: "int_strip ?s = ?s"
    by (rule int_strip_id) (auto simp: is_int_space_def last_replicate)
  have lastd: "is_digit (last ?s)" using digs by (metis last_in_set list.distinct(1))
  have nound: "\<not> contains ''__'' ?s"
  proof
    assume "contains ''__'' ?s"
    then have "CHR ''_'' \<in> set ?s" using contains_set by fastforce
    then show False by auto
  qed
  have lit: "int_literal ?s"
    unfolding int_literal_def using digs lastd nound by (auto simp: list_all_iff)
  have fil: "filter is_digit ?s = ?s" using digs by (simp add: filter_id_conv)
  have val: "digits_val ?s = 10 ^ n"
    using digits_val_zeros [of 1 n] by (simp add: digits_val_def digit_val_def)
  show ?thesis
    unfolding py_int_def Let_def st using lit fil val assms by auto
qed

lemma resolve_date_huge:
  "resolve_date platform_example huge_date =
     Inl (OverflowError, ''integer division result too large for a float'')"
proof -
  have i: "py_int (int_max_str_digits platform_example) huge_date = Some (10 ^ 400)"
    unfolding huge_date_def by (rule py_int_one_zeros) (simp add: platform_example_def)
  have d: "py_truediv (10 ^ 400) 1000 =
             Inl (OverflowError, ''integer division result too large for a float'')"
    by (simp add: py_truediv_def)
  have t: "timestamp_try platform_example huge_date =
             Inl (OverflowError, ''integer division result too large for a float'')"
    by (simp only: timestamp_try_def i option.case d sum.case)
  have ne: "huge_date \<noteq> []" by (simp add: huge_date_def)
  show ?thesis
    unfolding resolve_date_def t using ne by simp
qed

lemma huge_is_momo: "is_momo_sms huge_date_message"
proof -
  have "any_in momo_indicators (lower ''You have received RWF 500 from JOHN'')" by code_simp
  then show ?thesis by (simp add: is_momo_sms_def huge_date_message_def)
qed

text \<open>
  Claim C7 (the timestamp step never raises and always produces a date) does not hold of the
  code: for a \<open>@date\<close> of a 1 followed by 400 zeros, \<open>int(date_str) / 1000\<close> raises
  \<open>OverflowError\<close>, which the inner \<open>except (ValueError, TypeError)\<close> does not take; no date
  is produced, the extractor returns \<open>None\<close> and the message is dead-lettered.
\<close>

theorem timestamp_overflow:
  "is_momo_sms huge_date_message \<and>
   resolve_date platform_example huge_date =
     Inl (OverflowError, ''integer division result too large for a float'') \<and>
   extract_transaction_details platform_example huge_date_message empty_state =
     (None, \<lparr> transactions = [],
              dead_letters = [\<lparr> dl_message = huge_date_message,
                                dl_error = ''integer division result too large for a float'',
                                dl_timestamp = ''20230502100000'' \<rparr>] \<rparr>)"
proof -
  have "extract_try platform_example huge_date_message =
          Inl (OverflowError, ''integer division result too large for a float'')"
    by (simp add: extract_try_def huge_date_message_def resolve_date_huge)
  then have "extract_transaction_details platform_example huge_date_message empty_state =
     (None, \<lparr> transactions = [],
              dead_letters = [\<lparr> dl_message = huge_date_message,
                                dl_error = ''integer division result too large for a float'',
                                dl_timestamp = ''20230502100000'' \<rparr>] \<rparr>)"
    by (simp add: extract_transaction_details_def save_to_dead_letter_def platform_example_def
        empty_state_def)
  then show ?thesis using huge_is_momo resolve_date_huge by simp
qed

lemma resolve_date_example:
  "resolve_date platform_example ''1683014100000'' = Inr ''2023-05-02 07:55:00''"
proof -
  have i: "py_int 4300 ''1683014100000'' = Some 1683014100000"
    by (simp add: py_int_def int_strip_def is_int_space_def int_literal_def is_digit_def digits_val_def
        digit_val_def)
  have d: "py_truediv 1683014100000 1000 = Inr 1683014100"
    by (simp add: py_truediv_def)
  show ?thesis
    by (simp add: resolve_date_def timestamp_try_def platform_example_def i d)
qed

text \<open>
  Claim C10. \<open>process\<close> hands a message to the extractor only if \<open>is_momo_sms\<close> holds of it,
  that is, if it has a body whose lower-cased text contains one of the nine indicators; every
  other message (no body, or no indicator) leaves the run as it was: neither a transaction
  nor a dead-letter record.
\<close>

theorem process_gate:
  "(is_momo_sms message \<longleftrightarrow>
      (\<exists>body. message ''@body'' = Some body \<and>
         (\<exists>ind \<in> set momo_indicators. contains ind (lower body)))) \<and>
   momo_indicators = [''momo'', ''mobile money'', ''transaction'', ''received'', ''sent'',
                      ''cash in'', ''cash out'', ''withdraw'', ''deposit''] \<and>
   (\<not> is_momo_sms message \<longrightarrow> process_message env message st = st) \<and>
   ((\<forall>m \<in> set messages. \<not> is_momo_sms m) \<longrightarrow> process_messages env messages st = st)"
proof -
  have a: "is_momo_sms message \<longleftrightarrow>
      (\<exists>body. message ''@body'' = Some body \<and>
         (\<exists>ind \<in> set momo_indicators. contains ind (lower body)))"
    by (auto simp: is_momo_sms_def any_in_def list_ex_iff split: option.splits)
  have b: "momo_indicators = [''momo'', ''mobile money'', ''transaction'', ''received'', ''sent'',
                      ''cash in'', ''cash out'', ''withdraw'', ''deposit'']"
    by (simp add: momo_indicators_def)
  have c: "(\<forall>m \<in> set messages. \<not> is_momo_sms m) \<longrightarrow> process_messages env messages st = st"
    by (induction messages arbitrary: st) (simp_all add: process_message_skip)
  show ?thesis using a b c process_message_skip by blast
qed

theorem process_gate_witness:
  "\<not> is_momo_sms hello_message \<and> \<not> is_momo_sms no_body_message \<and>
   no_body_message ''@body'' = None \<and>
   \<not> (\<exists>ind \<in> set momo_indicators. contains ind (lower ''Hello, how are you?'')) \<and>
   process_message platform_example hello_message empty_state = empty_state \<and>
   process_messages platform_example [hello_message, no_body_message] empty_state = empty_state"
proof -
  have h: "\<forall>m \<in> set [hello_message, no_body_message]. \<not> is_momo_sms m"
    using hello_not_momo no_body_not_momo by simp
  have n: "no_body_message ''@body'' = None" by (simp add: no_body_message_def)
  have c: "\<forall>ind \<in> set momo_indicators. \<not> contains ind (lower ''Hello, how are you?'')"
    by code_simp
  have nc: "\<not> (\<exists>ind \<in> set momo_indicators. contains ind (lower ''Hello, how are you?''))"
    using c by simp
  note g = process_gate [of hello_message platform_example empty_state
      "[hello_message, no_body_message]"]
  have p1: "process_message platform_example hello_message empty_state = empty_state"
    using g hello_not_momo by blast
  have p2: "process_messages platform_example [hello_message, no_body_message] empty_state =
            empty_state"
    using g h by blast
  show ?thesis
    using hello_not_momo no_body_not_momo n nc p1 p2 by (intro conjI)
qed

text \<open>
  Claim C6, amended. For every message without a body field: the extractor, called on it,
  returns the failure value \<open>None\<close> without raising and hands the message and the error
  description to \<open>save_to_dead_letter\<close>, which writes one record with both (where the file
  can be written), and the transactions stay as they were; in the pipeline the message
  never reaches the extractor, because \<open>is_momo_sms\<close> rejects it: it is not in the
  transactions, and no dead-letter record is produced for it.
\<close>

theorem missing_body:
  assumes "message ''@body'' = None"
  shows "extract_transaction_details env message st =
           (None, save_to_dead_letter env message ([CHR 0x27] @ ''@body'' @ [CHR 0x27]) st) \<and>
         (dead_letter_writable env \<longrightarrow>
            snd (extract_transaction_details env message st) =
              st \<lparr> dead_letters := dead_letters st @
                    [\<lparr> dl_message = message, dl_error = [CHR 0x27] @ ''@body'' @ [CHR 0x27],
                       dl_timestamp = now_compact env \<rparr>] \<rparr>) \<and>
         transactions (snd (extract_transaction_details env message st)) = transactions st \<and>
         \<not> is_momo_sms message \<and>
         process_message env message st = st"
proof -
  have e: "extract_transaction_details env message st =
           (None, save_to_dead_letter env message ([CHR 0x27] @ ''@body'' @ [CHR 0x27]) st)"
    using assms by (simp add: extract_transaction_details_def extract_try_no_body key_error_def)
  have n: "\<not> is_momo_sms message" using assms by (simp add: is_momo_sms_def)
  show ?thesis
    unfolding e using n by (simp add: save_to_dead_letter_def process_message_skip)
qed

theorem missing_body_witness:
  "no_body_message ''@body'' = None \<and> dead_letter_writable platform_example \<and>
   extract_transaction_details platform_example no_body_message empty_state =
     (None, \<lparr> transactions = [],
              dead_letters = [\<lparr> dl_message = no_body_message,
                                dl_error = [CHR 0x27] @ ''@body'' @ [CHR 0x27],
                                dl_timestamp = ''20230502100000'' \<rparr>] \<rparr>) \<and>
   process_message platform_example no_body_message empty_state = empty_state"
proof -
  have n: "no_body_message ''@body'' = None" by (simp add: no_body_message_def)
  have w: "dead_letter_writable platform_example" by (simp add: platform_example_def)
  show ?thesis
    using missing_body [of no_body_message platform_example empty_state] n w
    by (simp add: save_to_dead_letter_def platform_example_def empty_state_def)
qed

text \<open>
  Claim C6 as stated fails: the pipeline, run on a message without a body (on a platform
  where dead-letter files can be written), produces no dead-letter record.
\<close>

theorem missing_body_counterexample:
  "dead_letter_writable platform_example \<and> no_body_message ''@body'' = None \<and>
   dead_letters (process_messages platform_example [no_body_message] empty_state) = []"
  using no_body_not_momo
  by (simp add: process_message_skip empty_state_def platform_example_def no_body_message_def)

lemma is_prefix_lower: "is_prefix k s \<Longrightarrow> is_prefix (lower k) (lower s)"
  by (induction k s rule: is_prefix.induct) (auto simp: lower_def)

lemma contains_lower: "contains k s \<Longrightarrow> contains (lower k) (lower s)"
proof (induction s)
  case Nil
  then show ?case by (simp add: lower_def)
next
  case (Cons c cs)
  then show ?case
    using is_prefix_lower [of k "c # cs"] by (auto simp: lower_def)
qed

lemma any_in_iff: "any_in kws s \<longleftrightarrow> (\<exists>k \<in> set kws. contains k s)"
  by (simp add: any_in_def list_ex_iff)

lemma cash_keywords_lower:
  "k \<in> set CASH_IN_KEYWORDS \<union> set CASH_OUT_KEYWORDS \<Longrightarrow> lower k = k"
proof -
  have "\<forall>k \<in> set CASH_IN_KEYWORDS \<union> set CASH_OUT_KEYWORDS. lower k = k"
    by code_simp
  then show "k \<in> set CASH_IN_KEYWORDS \<union> set CASH_OUT_KEYWORDS \<Longrightarrow> lower k = k"
    by blast
qed

text \<open>
  Claim C4. The type of an extracted transaction comes from the lower-cased body, checked
  against \<open>CASH_IN_KEYWORDS\<close> first and \<open>CASH_OUT_KEYWORDS\<close> second: a body with a keyword
  that is in both lists (\<open>paid\<close> is one) gives \<open>CASH_IN\<close>, a body with no keyword of either
  list gives \<open>OTHER\<close>, and \<open>CASH_OUT\<close> is given exactly when no \<open>CASH_IN\<close> keyword and some
  \<open>CASH_OUT\<close> keyword occurs.
\<close>

theorem type_classification:
  assumes "message ''@body'' = Some body" and "extract_try env message = Inr t"
  shows "(\<forall>k. k \<in> set CASH_IN_KEYWORDS \<and> k \<in> set CASH_OUT_KEYWORDS \<and>
              (contains k body \<or> contains k (lower body)) \<longrightarrow> type t = CASH_IN) \<and>
         ((\<forall>k \<in> set CASH_IN_KEYWORDS \<union> set CASH_OUT_KEYWORDS. \<not> contains k (lower body)) \<longrightarrow>
            type t = OTHER) \<and>
         (type t = CASH_IN \<longleftrightarrow> (\<exists>k \<in> set CASH_IN_KEYWORDS. contains k (lower body))) \<and>
         (type t = CASH_OUT \<longleftrightarrow>
            \<not> (\<exists>k \<in> set CASH_IN_KEYWORDS. contains k (lower body)) \<and>
            (\<exists>k \<in> set CASH_OUT_KEYWORDS. contains k (lower body))) \<and>
         ''paid'' \<in> set CASH_IN_KEYWORDS \<inter> set CASH_OUT_KEYWORDS"
proof -
  from extract_try_Inr [OF assms(2)] assms(1)
  have ty: "type t = transaction_type (lower body)" by auto
  have low: "contains k (lower body)"
    if "k \<in> set CASH_IN_KEYWORDS" "contains k body \<or> contains k (lower body)" for k
    using that contains_lower [of k body] cash_keywords_lower [of k] by auto
  have 1: "\<forall>k. k \<in> set CASH_IN_KEYWORDS \<and> k \<in> set CASH_OUT_KEYWORDS \<and>
              (contains k body \<or> contains k (lower body)) \<longrightarrow> type t = CASH_IN"
    using low by (auto simp: ty transaction_type_def any_in_iff)
  have 2: "(\<forall>k \<in> set CASH_IN_KEYWORDS \<union> set CASH_OUT_KEYWORDS. \<not> contains k (lower body)) \<longrightarrow>
            type t = OTHER"
    by (auto simp: ty transaction_type_def any_in_iff)
  have 3: "type t = CASH_IN \<longleftrightarrow> (\<exists>k \<in> set CASH_IN_KEYWORDS. contains k (lower body))"
    by (auto simp: ty transaction_type_def any_in_iff)
  have 4: "type t = CASH_OUT \<longleftrightarrow>
            \<not> (\<exists>k \<in> set CASH_IN_KEYWORDS. contains k (lower body)) \<and>
            (\<exists>k \<in> set CASH_OUT_KEYWORDS. contains k (lower body))"
    by (auto simp: ty transaction_type_def any_in_iff)
  have 5: "''paid'' \<in> set CASH_IN_KEYWORDS \<inter> set CASH_OUT_KEYWORDS"
    by (simp add: CASH_IN_KEYWORDS_def CASH_OUT_KEYWORDS_def)
  from 1 2 3 4 5 show ?thesis by blast
qed

theorem type_classification_witness:
  "paid_message ''@body'' = Some ''Transaction: you PAID 300 RWF to the shop'' \<and>
   extract_try platform_example paid_message =
     Inr (projr (extract_try platform_example paid_message)) \<and>
   ''paid'' \<in> set CASH_IN_KEYWORDS \<and> ''paid'' \<in> set CASH_OUT_KEYWORDS \<and>
   contains ''paid'' (lower ''Transaction: you PAID 300 RWF to the shop'') \<and>
   type (projr (extract_try platform_example paid_message)) = CASH_IN \<and>
   \<not> (\<exists>k \<in> set CASH_IN_KEYWORDS \<union> set CASH_OUT_KEYWORDS.
        contains k (lower ''Hello, how are you?'')) \<and>
   type (projr (extract_try platform_example hello_message)) = OTHER"
proof -
  have b: "paid_message ''@body'' = Some ''Transaction: you PAID 300 RWF to the shop''"
    by (simp add: paid_message_def)
  have d: "resolve_date platform_example
             (case paid_message ''@date'' of None \<Rightarrow> [] | Some d \<Rightarrow> d) = Inr ''2023-05-02 07:55:00''"
    by (simp add: paid_message_def resolve_date_example)
  have e: "extract_try platform_example paid_message =
             Inr (projr (extract_try platform_example paid_message))"
    by (simp add: extract_try_date [OF b d])
  have k: "''paid'' \<in> set CASH_IN_KEYWORDS" "''paid'' \<in> set CASH_OUT_KEYWORDS"
    by (simp_all add: CASH_IN_KEYWORDS_def CASH_OUT_KEYWORDS_def)
  have c: "contains ''paid'' (lower ''Transaction: you PAID 300 RWF to the shop'')"
    by code_simp
  have hb: "hello_message ''@body'' = Some ''Hello, how are you?''"
    by (simp add: hello_message_def)
  have hd: "resolve_date platform_example
             (case hello_message ''@date'' of None \<Rightarrow> [] | Some d \<Rightarrow> d) = Inr ''2023-05-02 07:55:00''"
    by (simp add: hello_message_def resolve_date_example)
  have he: "extract_try platform_example hello_message =
             Inr (projr (extract_try platform_example hello_message))"
    by (simp add: extract_try_date [OF hb hd])
  have hn: "\<forall>k \<in> set CASH_IN_KEYWORDS \<union> set CASH_OUT_KEYWORDS.
              \<not> contains k (lower ''Hello, how are you?'')"
    by code_simp
  note tc = type_classification [of paid_message "''Transaction: you PAID 300 RWF to the shop''"
      platform_example "projr (extract_try platform_example paid_message)", OF b e]
  note th = type_classification [of hello_message "''Hello, how are you?''"
      platform_example "projr (extract_try platform_example hello_message)", OF hb he]
  have p1: "type (projr (extract_try platform_example paid_message)) = CASH_IN"
    using conjunct1 [OF tc] k c by blast
  have p2: "type (projr (extract_try platform_example hello_message)) = OTHER"
    using conjunct1 [OF conjunct2 [OF th]] hn by blast
  have nhn: "\<not> (\<exists>k \<in> set CASH_IN_KEYWORDS \<union> set CASH_OUT_KEYWORDS.
                 contains k (lower ''Hello, how are you?''))"
    using hn by simp
  show ?thesis
    using b e k c nhn p1 p2 by (intro conjI)
qed

section \<open>The extractor: amount, reference and the scenario\<close>

lemma char_facts:
  "\<forall>c. to_lower (to_lower c) = to_lower c \<and>
       is_num_char (to_lower c) = is_num_char c \<and>
       is_space (to_lower c) = is_space c \<and>
       is_colon_space (to_lower c) = is_colon_space c \<and>
       (is_num_char c \<longrightarrow> to_lower c = c)"
proof -
  have "\<forall>c \<in> set (Enum.enum :: char list).
       to_lower (to_lower c) = to_lower c \<and>
       is_num_char (to_lower c) = is_num_char c \<and>
       is_space (to_lower c) = is_space c \<and>
       is_colon_space (to_lower c) = is_colon_space c \<and>
       (is_num_char c \<longrightarrow> to_lower c = c)"
    by code_simp
  then show ?thesis by (simp add: enum_UNIV)
qed

lemma to_lower_idem: "to_lower (to_lower c) = to_lower c"
  using char_facts by blast

lemma first_some_map_option:
  "(\<And>k. k \<in> set ks \<Longrightarrow> f' k = map_option h (f k)) \<Longrightarrow>
   first_some f' ks = map_option h (first_some f ks)"
  by (induction ks) (auto split: option.splits)

lemma first_some_Some: "first_some f ks = Some r \<Longrightarrow> \<exists>k \<in> set ks. f k = Some r"
  by (induction ks) (auto split: option.splits)

lemma takeWhile_lower:
  "(\<forall>c. cls (to_lower c) = cls c) \<Longrightarrow> takeWhile cls (lower s) = lower (takeWhile cls s)"
  by (induction s) (auto simp: lower_def)

lemma lower_take: "take k (lower s) = lower (take k s)"
  by (simp add: lower_def take_map)

lemma lower_drop: "drop k (lower s) = lower (drop k s)"
  by (simp add: lower_def drop_map)

lemma lower_append: "lower (a @ b) = lower a @ lower b"
  by (simp add: lower_def)

lemma length_lower: "length (lower s) = length s"
  by (simp add: lower_def)

lemma rx_match_lower:
  assumes "\<forall>it \<in> set its. ci_ok it"
  shows "rx_match True its (lower s) = map_option (map_prod lower lower) (rx_match True its s)"
  using assms
proof (induction its arbitrary: s)
  case Nil
  then show ?case by (simp add: lower_def)
next
  case (Cons it its)
  have IH: "rx_match True its (lower s') = map_option (map_prod lower lower) (rx_match True its s')" for s'
    using Cons by simp
  show ?case
  proof (cases it)
    case (Lit c)
    show ?thesis
    proof (cases s)
      case Nil
      then show ?thesis using Lit by (simp add: lower_def)
    next
      case (Cons x xs)
      have "rx_match True its (lower xs) = map_option (map_prod lower lower) (rx_match True its xs)"
        by (rule IH)
      then show ?thesis
        using Lit Cons
        by (cases "rx_match True its xs") (auto simp: lower_def chr_eq_def to_lower_idem)
    qed
  next
    case (One cls)
    then have inv: "\<forall>c. cls (to_lower c) = cls c" using Cons.prems by (simp add: ci_ok_def)
    show ?thesis
    proof (cases s)
      case Nil
      then show ?thesis using One by (simp add: lower_def)
    next
      case (Cons x xs)
      have "rx_match True its (lower xs) = map_option (map_prod lower lower) (rx_match True its xs)"
        by (rule IH)
      then show ?thesis
        using One Cons inv
        by (cases "rx_match True its xs") (auto simp: lower_def)
    qed
  next
    case (Rep cls n)
    then have inv: "\<forall>c. cls (to_lower c) = cls c" using Cons.prems by (simp add: ci_ok_def)
    have len: "length (takeWhile cls (lower s)) = length (takeWhile cls s)"
      by (simp add: takeWhile_lower [OF inv] length_lower)
    have "first_some
            (\<lambda>k. map_option (\<lambda>(m, g). (take k (lower s) @ m, g)) (rx_match True its (drop k (lower s))))
            (rev [n ..< Suc (length (takeWhile cls s))])
        = map_option (map_prod lower lower)
            (first_some
              (\<lambda>k. map_option (\<lambda>(m, g). (take k s @ m, g)) (rx_match True its (drop k s)))
              (rev [n ..< Suc (length (takeWhile cls s))]))"
    proof (rule first_some_map_option)
      fix k
      show "map_option (\<lambda>(m, g). (take k (lower s) @ m, g)) (rx_match True its (drop k (lower s)))
          = map_option (map_prod lower lower)
              (map_option (\<lambda>(m, g). (take k s @ m, g)) (rx_match True its (drop k s)))"
        by (cases "rx_match True its (drop k s)")
           (auto simp: lower_drop lower_take lower_append IH)
    qed
    then show ?thesis using Rep by (simp add: len)
  next
    case (Grp cls n)
    then have inv: "\<forall>c. cls (to_lower c) = cls c" using Cons.prems by (simp add: ci_ok_def)
    have len: "length (takeWhile cls (lower s)) = length (takeWhile cls s)"
      by (simp add: takeWhile_lower [OF inv] length_lower)
    have "first_some
            (\<lambda>k. map_option (\<lambda>(m, g). (take k (lower s) @ m, take k (lower s)))
                   (rx_match True its (drop k (lower s))))
            (rev [n ..< Suc (length (takeWhile cls s))])
        = map_option (map_prod lower lower)
            (first_some
              (\<lambda>k. map_option (\<lambda>(m, g). (take k s @ m, take k s)) (rx_match True its (drop k s)))
              (rev [n ..< Suc (length (takeWhile cls s))]))"
    proof (rule first_some_map_option)
      fix k
      show "map_option (\<lambda>(m, g). (take k (lower s) @ m, take k (lower s)))
              (rx_match True its (drop k (lower s)))
          = map_option (map_prod lower lower)
              (map_option (\<lambda>(m, g). (take k s @ m, take k s)) (rx_match True its (drop k s)))"
        by (cases "rx_match True its (drop k s)")
           (auto simp: lower_drop lower_take lower_append IH)
    qed
    then show ?thesis using Grp by (simp add: len)
  qed
qed

lemma rx_search_lower:
  assumes "\<forall>it \<in> set p. ci_ok it"
  shows "rx_search True p (lower s) = map_option (map_prod lower lower) (rx_search True p s)"
  unfolding rx_search_def length_lower
  by (rule first_some_map_option) (simp add: lower_drop rx_match_lower [OF assms])

lemma take_takeWhile:
  "k \<le> length (takeWhile P s) \<Longrightarrow> take k s = take k (takeWhile P s)"
  by (induction s arbitrary: k) (auto simp: take_Cons split: nat.splits if_splits)

lemma rx_match_group:
  assumes "rx_match ic its s = Some (m, g)"
    and "\<forall>cls n. Grp cls n \<in> set its \<longrightarrow> (\<forall>c. cls c \<longrightarrow> P c)"
  shows "\<forall>c \<in> set g. P c"
  using assms
proof (induction its arbitrary: s m g)
  case Nil
  then show ?case by simp
next
  case (Cons it its)
  have IH: "\<forall>c \<in> set g'. P c" if "rx_match ic its s' = Some (m', g')" for s' m' g'
    using Cons.IH [OF that] Cons.prems(2) by auto
  show ?case
  proof (cases it)
    case (Lit c)
    with Cons.prems(1) IH show ?thesis
      by (auto split: list.splits if_splits)
  next
    case (One cls)
    with Cons.prems(1) IH show ?thesis
      by (auto split: list.splits if_splits)
  next
    case (Rep cls n)
    with Cons.prems(1) have
      "first_some (\<lambda>k. map_option (\<lambda>(m, g). (take k s @ m, g)) (rx_match ic its (drop k s)))
         (rev [n ..< Suc (length (takeWhile cls s))]) = Some (m, g)"
      by simp
    from first_some_Some [OF this] obtain k where
      "map_option (\<lambda>(m, g). (take k s @ m, g)) (rx_match ic its (drop k s)) = Some (m, g)"
      by blast
    then show ?thesis using IH by auto
  next
    case (Grp cls n)
    with Cons.prems(1) have
      "first_some (\<lambda>k. map_option (\<lambda>(m, g). (take k s @ m, take k s)) (rx_match ic its (drop k s)))
         (rev [n ..< Suc (length (takeWhile cls s))]) = Some (m, g)"
      by simp
    from first_some_Some [OF this] obtain k where k: "k \<in> set (rev [n ..< Suc (length (takeWhile cls s))])"
      and r: "map_option (\<lambda>(m, g). (take k s @ m, take k s)) (rx_match ic its (drop k s)) = Some (m, g)"
      by blast
    from r have g: "g = take k s" by auto
    from k have kl: "k \<le> length (takeWhile cls s)" by auto
    have "take k s = take k (takeWhile cls s)"
      using kl by (rule take_takeWhile)
    then have "set g \<subseteq> set (takeWhile cls s)" using g by (metis set_take_subset)
    then have "\<forall>c \<in> set g. cls c" by (auto dest: set_takeWhileD)
    moreover have "\<forall>c. cls c \<longrightarrow> P c" using Cons.prems(2) Grp by simp
    ultimately show ?thesis by blast
  qed
qed

lemma rx_search_group:
  assumes "rx_search ic p s = Some (m, g)"
    and "\<forall>cls n. Grp cls n \<in> set p \<longrightarrow> (\<forall>c. cls c \<longrightarrow> P c)"
  shows "\<forall>c \<in> set g. P c"
proof -
  from assms(1) have "first_some (\<lambda>i. rx_match ic p (drop i s)) [0 ..< Suc (length s)] = Some (m, g)"
    by (simp add: rx_search_def)
  from first_some_Some [OF this] obtain i where "rx_match ic p (drop i s) = Some (m, g)"
    by blast
  then show ?thesis using rx_match_group assms(2) by blast
qed

lemma num_char_lower: "\<forall>c \<in> set g. is_num_char c \<Longrightarrow> lower g = g"
  using char_facts by (simp add: lower_def map_idI)

lemma amount_patterns_ci: "p \<in> set amount_patterns \<Longrightarrow> \<forall>it \<in> set p. ci_ok it"
  using char_facts by (auto simp: amount_patterns_def lits_def ci_ok_def)

lemma amount_patterns_grp:
  "p \<in> set amount_patterns \<Longrightarrow> \<forall>cls n. Grp cls n \<in> set p \<longrightarrow> (\<forall>c. cls c \<longrightarrow> is_num_char c)"
  by (auto simp: amount_patterns_def lits_def)

lemma amount_candidate_lower:
  assumes "p \<in> set amount_patterns"
  shows "amount_candidate p (lower s) = amount_candidate p s"
proof (cases "rx_search True p s")
  case None
  then show ?thesis
    by (simp add: amount_candidate_def rx_search_lower [OF amount_patterns_ci [OF assms]])
next
  case (Some r)
  obtain m g where r: "r = (m, g)" by (cases r)
  have "\<forall>c \<in> set g. is_num_char c"
    using rx_search_group [of True p s m g is_num_char] Some r amount_patterns_grp [OF assms]
    by blast
  then have "lower g = g" by (rule num_char_lower)
  then show ?thesis
    using Some r
    by (simp add: amount_candidate_def rx_search_lower [OF amount_patterns_ci [OF assms]])
qed

lemma remove_commas_without: "remove_commas g = without_commas g"
  by (induction g) (simp_all add: remove_commas_def)

lemma without_commas_append: "without_commas (a @ b) = without_commas a @ without_commas b"
  by (induction a) simp_all

lemma digit_facts: "is_digit c \<Longrightarrow> c \<noteq> CHR '','' \<and> is_num_char c \<and> \<not> is_space c"
  by (auto simp: is_digit_def is_num_char_def is_space_def)

lemma without_commas_digits: "list_all is_digit ds \<Longrightarrow> without_commas ds = ds"
  by (induction ds) (auto dest: digit_facts)

lemma py_float_digits:
  assumes "ds \<noteq> []" "list_all is_digit ds"
  shows "py_float ds = Some (of_nat (digits_val ds))"
proof -
  have t: "takeWhile is_digit ds = ds" using assms(2) by (simp add: list_all_iff)
  have d: "dropWhile is_digit ds = []" using assms(2) by (simp add: list_all_iff)
  show ?thesis unfolding py_float_def Let_def t d using assms(1) by simp
qed

lemma rx_search_here:
  assumes "rx_match ic p s = Some r"
  shows "rx_search ic p s = Some r"
proof -
  have u: "[0 ..< Suc (length s)] = 0 # [Suc 0 ..< Suc (length s)]"
    by (rule upt_conv_Cons) simp
  show ?thesis
    by (simp only: rx_search_def u first_some.simps drop_0 assms option.case)
qed

lemma rx_match_grp_all:
  assumes "\<forall>c \<in> set s. cls c" "n \<le> length s"
  shows "rx_match ic [Grp cls n] s = Some (s, s)"
proof -
  have t: "takeWhile cls s = s" using assms(1) by simp
  have r: "rev [n ..< Suc (length s)] = length s # rev [n ..< length s]"
    using assms(2) by simp
  show ?thesis using assms(2) by (simp add: t r)
qed

lemma rx_match_rep_one:
  assumes "rx_match ic its rest = Some (m, g)" "takeWhile cls (x # rest) = [x]"
  shows "rx_match ic (Rep cls 0 # its) (x # rest) = Some (x # m, g)"
proof -
  have l: "rev [0 ..< Suc (length (takeWhile cls (x # rest)))] = [Suc 0, 0]"
    unfolding assms(2) by simp
  show ?thesis
    unfolding rx_match.simps l by (simp add: assms(1))
qed

lemma rx_match_lit:
  assumes "chr_eq ic c x" "rx_match ic its xs = Some (m, g)"
  shows "rx_match ic (Lit c # its) (x # xs) = Some (x # m, g)"
  unfolding rx_match.simps by (simp add: assms)

lemma rx_match_rwf_number:
  assumes "num \<noteq> []" "\<forall>c \<in> set num. is_num_char c" "\<not> is_space (hd num)"
  shows "rx_match True (amount_patterns ! 0) (''RWF '' @ num) = Some (''RWF '' @ num, num)"
proof -
  have p: "amount_patterns ! 0 = [Lit (CHR ''R''), Lit (CHR ''W''), Lit (CHR ''F''),
             Rep is_space 0, Grp is_num_char 1]"
    by (simp add: amount_patterns_def lits_def)
  have g: "rx_match True [Grp is_num_char 1] num = Some (num, num)"
    using assms by (intro rx_match_grp_all) (auto simp: Suc_le_eq)
  have sp: "takeWhile is_space (CHR '' '' # num) = [CHR '' '']"
    using assms(1,3) by (cases num) (auto simp: is_space_def)
  have rep: "rx_match True [Rep is_space 0, Grp is_num_char 1] (CHR '' '' # num) =
               Some (CHR '' '' # num, num)"
    by (rule rx_match_rep_one [OF g sp])
  have f: "rx_match True [Lit (CHR ''F''), Rep is_space 0, Grp is_num_char 1]
             (CHR ''F'' # CHR '' '' # num) = Some (CHR ''F'' # CHR '' '' # num, num)"
    by (rule rx_match_lit [OF _ rep]) (simp add: chr_eq_def)
  have w: "rx_match True [Lit (CHR ''W''), Lit (CHR ''F''), Rep is_space 0, Grp is_num_char 1]
             (CHR ''W'' # CHR ''F'' # CHR '' '' # num) =
           Some (CHR ''W'' # CHR ''F'' # CHR '' '' # num, num)"
    by (rule rx_match_lit [OF _ f]) (simp add: chr_eq_def)
  have r: "rx_match True
             [Lit (CHR ''R''), Lit (CHR ''W''), Lit (CHR ''F''), Rep is_space 0, Grp is_num_char 1]
             (CHR ''R'' # CHR ''W'' # CHR ''F'' # CHR '' '' # num) =
           Some (CHR ''R'' # CHR ''W'' # CHR ''F'' # CHR '' '' # num, num)"
    by (rule rx_match_lit [OF _ w]) (simp add: chr_eq_def)
  have e: "''RWF '' @ num = CHR ''R'' # CHR ''W'' # CHR ''F'' # CHR '' '' # num"
    by simp
  show ?thesis
    unfolding p e by (rule r)
qed

lemma extract_amount_grouped:
  assumes "ds1 \<noteq> []" "ds2 \<noteq> []" "list_all is_digit ds1" "list_all is_digit ds2"
  shows "extract_amount (''RWF '' @ ds1 @ '','' @ ds2) = of_nat (digits_val (ds1 @ ds2))"
proof -
  let ?num = "ds1 @ '','' @ ds2"
  have n1: "?num \<noteq> []" using assms(1) by simp
  have n2: "\<forall>c \<in> set ?num. is_num_char c"
    using assms(3,4) by (auto simp: list_all_iff is_num_char_def)
  have n3: "\<not> is_space (hd ?num)"
    using assms(1,3) by (cases ds1) (auto dest: digit_facts)
  have s: "rx_search True (amount_patterns ! 0) (''RWF '' @ ?num) = Some (''RWF '' @ ?num, ?num)"
    by (rule rx_search_here [OF rx_match_rwf_number [OF n1 n2 n3]])
  have w: "without_commas ?num = ds1 @ ds2"
    using assms(3,4) by (simp add: without_commas_append without_commas_digits)
  have f: "py_float (ds1 @ ds2) = Some (of_nat (digits_val (ds1 @ ds2)))"
    using assms by (intro py_float_digits) auto
  have c: "py_float (remove_commas ?num) = Some (of_nat (digits_val (ds1 @ ds2)))"
    by (simp only: remove_commas_without w f)
  have p: "amount_patterns = (amount_patterns ! 0) # tl amount_patterns"
    by (simp add: amount_patterns_def)
  have "amount_loop ((amount_patterns ! 0) # tl amount_patterns) (''RWF '' @ ?num) 0
          = of_nat (digits_val (ds1 @ ds2))"
    by (simp only: amount_loop.simps s option.case prod.case c)
  then show ?thesis
    unfolding extract_amount_def using p by simp
qed

lemma amount_loop_find:
  "amount_loop ps body a =
     (case List.find (\<lambda>p. amount_candidate p body \<noteq> None) ps of
        None \<Rightarrow> a
      | Some p \<Rightarrow> the (amount_candidate p body))"
  by (induction ps body a rule: amount_loop.induct)
     (auto simp: amount_candidate_def remove_commas_without split: option.splits)

lemma amount_loop_first:
  assumes "i < length ps" "amount_candidate (ps ! i) body = Some v"
    and "\<forall>j<i. amount_candidate (ps ! j) body = None"
  shows "amount_loop ps body a = v"
proof -
  have "List.find (\<lambda>p. amount_candidate p body \<noteq> None) ps = Some (ps ! i)"
    unfolding find_Some_iff using assms by auto
  then show ?thesis using assms(2) by (simp add: amount_loop_find)
qed

lemma amount_loop_none:
  assumes "\<forall>p \<in> set ps. amount_candidate p body = None"
  shows "amount_loop ps body a = a"
proof -
  have "List.find (\<lambda>p. amount_candidate p body \<noteq> None) ps = None"
    unfolding find_None_iff using assms by auto
  then show ?thesis by (simp add: amount_loop_find)
qed

lemma amount_loop_cong:
  assumes "\<forall>p \<in> set ps. amount_candidate p b1 = amount_candidate p b2"
  shows "amount_loop ps b1 a = amount_loop ps b2 a"
  using assms
  by (induction ps) (auto simp: amount_candidate_def remove_commas_without split: option.splits)

lemma extract_amount_lower: "extract_amount (lower body) = extract_amount body"
  unfolding extract_amount_def
  by (rule amount_loop_cong) (simp add: amount_candidate_lower)

text \<open>
  Claim C5. The amount comes from the five patterns tried in their listed order: the result
  is the number of the first pattern whose capture, with its commas left out, parses (the
  candidate of \<open>amount_candidate\<close>, which is written from the specification and not from the
  code's \<open>replace\<close>); a pattern whose capture does not parse (or that does not match) is
  passed over for the next one; when no pattern yields a number the amount is 0; matching
  ignores the case of letters (bodies that agree after lower-casing give the same amount);
  the amount step cannot make the extraction fail: once the date is resolved the extractor
  returns a transaction, whose amount is the one described; and, for the commas, \<open>RWF\<close>
  before two groups of digits with a comma between them gives the number that the digits
  of both groups spell.
\<close>

theorem amount_extraction:
  "length amount_patterns = 5 \<and>
   (\<forall>i<length amount_patterns. \<forall>v.
      amount_candidate (amount_patterns ! i) body = Some v \<and>
      (\<forall>j<i. amount_candidate (amount_patterns ! j) body = None) \<longrightarrow>
      extract_amount body = v) \<and>
   ((\<forall>p \<in> set amount_patterns. amount_candidate p body = None) \<longrightarrow> extract_amount body = 0) \<and>
   (\<forall>body'. lower body' = lower body \<longrightarrow> extract_amount body' = extract_amount body) \<and>
   (\<forall>env message t. message ''@body'' = Some body \<and> extract_try env message = Inr t \<longrightarrow>
      amount t = extract_amount body) \<and>
   (\<forall>env message d. message ''@body'' = Some body \<and>
      resolve_date env (case message ''@date'' of None \<Rightarrow> [] | Some x \<Rightarrow> x) = Inr d \<longrightarrow>
      (\<exists>t. extract_try env message = Inr t)) \<and>
   (\<forall>ds1 ds2. ds1 \<noteq> [] \<and> ds2 \<noteq> [] \<and> list_all is_digit ds1 \<and> list_all is_digit ds2 \<longrightarrow>
      extract_amount (''RWF '' @ ds1 @ '','' @ ds2) = of_nat (digits_val (ds1 @ ds2)))"
proof -
  have 1: "length amount_patterns = 5" by (simp add: amount_patterns_def)
  have 2: "\<forall>i<length amount_patterns. \<forall>v.
      amount_candidate (amount_patterns ! i) body = Some v \<and>
      (\<forall>j<i. amount_candidate (amount_patterns ! j) body = None) \<longrightarrow>
      extract_amount body = v"
    using amount_loop_first [of _ amount_patterns body] by (simp add: extract_amount_def)
  have 3: "(\<forall>p \<in> set amount_patterns. amount_candidate p body = None) \<longrightarrow> extract_amount body = 0"
    using amount_loop_none [of amount_patterns body 0] by (simp add: extract_amount_def)
  have 4: "\<forall>body'. lower body' = lower body \<longrightarrow> extract_amount body' = extract_amount body"
    using extract_amount_lower by metis
  have 5: "\<forall>env message t. message ''@body'' = Some body \<and> extract_try env message = Inr t \<longrightarrow>
      amount t = extract_amount body"
    using extract_try_Inr by fastforce
  have 6: "\<forall>env message d. message ''@body'' = Some body \<and>
      resolve_date env (case message ''@date'' of None \<Rightarrow> [] | Some x \<Rightarrow> x) = Inr d \<longrightarrow>
      (\<exists>t. extract_try env message = Inr t)"
    using extract_try_date by blast
  have 7: "\<forall>ds1 ds2. ds1 \<noteq> [] \<and> ds2 \<noteq> [] \<and> list_all is_digit ds1 \<and> list_all is_digit ds2 \<longrightarrow>
      extract_amount (''RWF '' @ ds1 @ '','' @ ds2) = of_nat (digits_val (ds1 @ ds2))"
    using extract_amount_grouped by blast
  from 1 2 3 4 5 6 7 show ?thesis by (intro conjI)
qed

lemma py_float_examples:
  "py_float (without_commas ''1.2.3'') = None"
  "py_float (without_commas ''7'') = Some 7"
  "py_float (without_commas ''500000'') = Some 500000"
  "py_float (without_commas ''1,000'') = Some 1000"
  "py_float (without_commas ''1,200.50'') = Some (2401 / 2)"
  "py_float (without_commas ''500'') = Some 500"
  "py_float (without_commas '','') = None"
  by (simp_all add: py_float_def is_digit_def digits_val_def digit_val_def)

theorem amount_extraction_witness:
  "amount_candidate (amount_patterns ! 0) ''RWF 1.2.3 then 7 RWF'' = None \<and>
   amount_candidate (amount_patterns ! 1) ''RWF 1.2.3 then 7 RWF'' = Some 7 \<and>
   extract_amount ''RWF 1.2.3 then 7 RWF'' = 7 \<and>
   \<not> (\<exists>p \<in> set amount_patterns. amount_candidate p ''Hello, how are you?'' \<noteq> None) \<and>
   extract_amount ''Hello, how are you?'' = 0 \<and>
   lower ''rwf 1.2.3 THEN 7 Rwf'' = lower ''RWF 1.2.3 then 7 RWF'' \<and>
   extract_amount ''rwf 1.2.3 THEN 7 Rwf'' = 7 \<and>
   amount_candidate (amount_patterns ! 0) ''RWF 1,000'' = Some 1000 \<and>
   extract_amount ''RWF 1,000'' = 1000 \<and>
   amount_candidate (amount_patterns ! 4) ''Paid 1,200.50 francs, thanks'' = Some (2401 / 2) \<and>
   extract_amount ''Paid 1,200.50 francs, thanks'' = 2401 / 2 \<and>
   amount_candidate (amount_patterns ! 0) (''RWF'' @ [CHR 0xA0] @ ''500'') = Some 500 \<and>
   extract_amount (''RWF'' @ [CHR 0xA0] @ ''500'') = 500 \<and>
   hello_message ''@body'' = Some ''Hello, how are you?'' \<and>
   extract_try platform_example hello_message =
     Inr (projr (extract_try platform_example hello_message)) \<and>
   amount (projr (extract_try platform_example hello_message)) = 0"
proof -
  have s0: "rx_search True (amount_patterns ! 0) ''RWF 1.2.3 then 7 RWF'' =
              Some (''RWF 1.2.3'', ''1.2.3'')"
    by code_simp
  have s1: "rx_search True (amount_patterns ! 1) ''RWF 1.2.3 then 7 RWF'' = Some (''7 RWF'', ''7'')"
    by code_simp
  have c0: "amount_candidate (amount_patterns ! 0) ''RWF 1.2.3 then 7 RWF'' = None"
    by (simp only: amount_candidate_def s0 option.case prod.case py_float_examples)
  have c1: "amount_candidate (amount_patterns ! 1) ''RWF 1.2.3 then 7 RWF'' = Some 7"
    by (simp only: amount_candidate_def s1 option.case prod.case py_float_examples)
  have sh: "\<forall>p \<in> set amount_patterns. rx_search True p ''Hello, how are you?'' = None"
    by code_simp
  have ch: "\<forall>p \<in> set amount_patterns. amount_candidate p ''Hello, how are you?'' = None"
    using sh by (simp add: amount_candidate_def)
  have lo: "lower ''rwf 1.2.3 THEN 7 Rwf'' = lower ''RWF 1.2.3 then 7 RWF''"
    by code_simp
  have hb: "hello_message ''@body'' = Some ''Hello, how are you?''"
    by (simp add: hello_message_def)
  have hd: "resolve_date platform_example
             (case hello_message ''@date'' of None \<Rightarrow> [] | Some d \<Rightarrow> d) = Inr ''2023-05-02 07:55:00''"
    by (simp add: hello_message_def resolve_date_example)
  have he: "extract_try platform_example hello_message =
             Inr (projr (extract_try platform_example hello_message))"
    by (simp add: extract_try_date [OF hb hd])
  note r = amount_extraction [of "''RWF 1.2.3 then 7 RWF''"]
  note h = amount_extraction [of "''Hello, how are you?''"]
  have l5: "(1::nat) < length amount_patterns" using r by simp
  have j0: "\<forall>j<(1::nat). amount_candidate (amount_patterns ! j) ''RWF 1.2.3 then 7 RWF'' = None"
    using c0 by simp
  have e7: "extract_amount ''RWF 1.2.3 then 7 RWF'' = 7"
    using conjunct1 [OF conjunct2 [OF r]] l5 c1 j0 by blast
  have e0: "extract_amount ''Hello, how are you?'' = 0"
    using conjunct1 [OF conjunct2 [OF conjunct2 [OF h]]] ch by blast
  have e7': "extract_amount ''rwf 1.2.3 THEN 7 Rwf'' = 7"
    using conjunct1 [OF conjunct2 [OF conjunct2 [OF conjunct2 [OF r]]]] lo e7 by metis
  have a0: "amount (projr (extract_try platform_example hello_message)) = 0"
    using conjunct1 [OF conjunct2 [OF conjunct2 [OF conjunct2 [OF conjunct2 [OF h]]]]] hb he e0
    by metis
  have nch: "\<not> (\<exists>p \<in> set amount_patterns. amount_candidate p ''Hello, how are you?'' \<noteq> None)"
    using ch by simp
  have sk: "rx_search True (amount_patterns ! 0) ''RWF 1,000'' = Some (''RWF 1,000'', ''1,000'')"
    by code_simp
  have ck: "amount_candidate (amount_patterns ! 0) ''RWF 1,000'' = Some 1000"
    by (simp only: amount_candidate_def sk option.case prod.case py_float_examples)
  note k = amount_extraction [of "''RWF 1,000''"]
  have l0: "(0::nat) < length amount_patterns" using r by simp
  have ek: "extract_amount ''RWF 1,000'' = 1000"
    using conjunct1 [OF conjunct2 [OF k]] l0 ck by blast
  have dk: "digits_val (''1'' @ ''000'') = 1000"
    by (simp add: digits_val_def digit_val_def)
  have "''1'' \<noteq> [] \<and> ''000'' \<noteq> [] \<and> list_all is_digit ''1'' \<and> list_all is_digit ''000''"
    by (simp add: is_digit_def)
  then have "extract_amount (''RWF '' @ ''1'' @ '','' @ ''000'') = of_nat (digits_val (''1'' @ ''000''))"
    using conjunct2 [OF conjunct2 [OF conjunct2 [OF conjunct2 [OF conjunct2 [OF conjunct2 [OF k]]]]]]
    by blast
  then have ek': "extract_amount ''RWF 1,000'' = 1000"
    by (simp only: dk) simp
  have sf0: "\<forall>j \<in> set [0 ..< 4]. rx_search True (amount_patterns ! j) ''Paid 1,200.50 francs, thanks'' = None"
    by code_simp
  have sf: "rx_search True (amount_patterns ! 4) ''Paid 1,200.50 francs, thanks'' =
              Some (''1,200.50 francs'', ''1,200.50'')"
    by code_simp
  have cf0: "\<forall>j<(4::nat). amount_candidate (amount_patterns ! j) ''Paid 1,200.50 francs, thanks'' = None"
    using sf0 by (simp add: amount_candidate_def)
  have cf: "amount_candidate (amount_patterns ! 4) ''Paid 1,200.50 francs, thanks'' = Some (2401 / 2)"
    by (simp only: amount_candidate_def sf option.case prod.case py_float_examples)
  note f = amount_extraction [of "''Paid 1,200.50 francs, thanks''"]
  have l4: "(4::nat) < length amount_patterns" using r by simp
  have ef: "extract_amount ''Paid 1,200.50 francs, thanks'' = 2401 / 2"
    using conjunct1 [OF conjunct2 [OF f]] l4 cf cf0 by blast
  have sn: "rx_search True (amount_patterns ! 0) (''RWF'' @ [CHR 0xA0] @ ''500'') =
              Some (''RWF'' @ [CHR 0xA0] @ ''500'', ''500'')"
    by code_simp
  have cn: "amount_candidate (amount_patterns ! 0) (''RWF'' @ [CHR 0xA0] @ ''500'') = Some 500"
    by (simp only: amount_candidate_def sn option.case prod.case py_float_examples)
  note n = amount_extraction [of "''RWF'' @ [CHR 0xA0] @ ''500''"]
  have en: "extract_amount (''RWF'' @ [CHR 0xA0] @ ''500'') = 500"
    using conjunct1 [OF conjunct2 [OF n]] l0 cn by blast
  show ?thesis
    using c0 c1 e7 nch e0 lo e7' ck ek' cf ef cn en hb he a0 by (intro conjI)
qed

lemma scenario_amount: "extract_amount scenario_body = 500000"
proof -
  have s: "rx_search True (amount_patterns ! 0) scenario_body = Some (''RWF 500000'', ''500000'')"
    by code_simp
  have c: "amount_candidate (amount_patterns ! 0) scenario_body = Some 500000"
    by (simp only: amount_candidate_def s option.case prod.case py_float_examples)
  have l: "0 < length amount_patterns" by (simp add: amount_patterns_def)
  show ?thesis
    unfolding extract_amount_def using amount_loop_first [OF l c] by simp
qed

lemma scenario_type: "transaction_type (lower scenario_body) = CASH_IN"
  by code_simp

lemma scenario_category: "categorize_transaction (lower scenario_body) = ''education''"
  by code_simp

lemma scenario_reference: "extract_reference scenario_body = Some ''erence''"
  by code_simp

lemma scenario_try:
  "extract_try platform_example scenario_message =
     Inr \<lparr> date = ''2023-05-02 07:55:00'', description = scenario_body,
           amount = extract_amount scenario_body,
           type = transaction_type (lower scenario_body),
           category = categorize_transaction (lower scenario_body),
           phone = extract_phone scenario_body, reference = extract_reference scenario_body,
           processed_date = now platform_example \<rparr>"
proof -
  have b: "scenario_message ''@body'' = Some scenario_body"
    by (simp add: scenario_message_def)
  have d: "resolve_date platform_example
             (case scenario_message ''@date'' of None \<Rightarrow> [] | Some d \<Rightarrow> d) = Inr ''2023-05-02 07:55:00''"
    by (simp add: scenario_message_def resolve_date_example)
  show ?thesis by (rule extract_try_date [OF b d])
qed

text \<open>
  Claim C2, amended. For a message with the body of the scenario, the transaction that
  \<open>extract_transaction_details\<close> returns has type \<open>CASH_IN\<close>, amount 500000 and category
  \<open>education\<close>: the keyword \<open>fee\<close> of \<open>education\<close> occurs in \<open>fee charged\<close>, and \<open>education\<close>
  comes before \<open>transfer\<close> and \<open>deposit\<close> in \<open>CATEGORIES\<close>.
\<close>

theorem scenario_extraction:
  assumes "message ''@body'' = Some scenario_body" and "extract_try env message = Inr t"
  shows "type t = CASH_IN \<and> amount t = 500000 \<and> category t = ''education''"
proof -
  from extract_try_Inr [OF assms(2)] assms(1)
  have "type t = transaction_type (lower scenario_body)"
    "amount t = extract_amount scenario_body"
    "category t = categorize_transaction (lower scenario_body)"
    by auto
  then show ?thesis by (simp add: scenario_type scenario_amount scenario_category)
qed

theorem scenario_extraction_witness:
  "scenario_message ''@body'' = Some scenario_body \<and>
   extract_try platform_example scenario_message =
     Inr (projr (extract_try platform_example scenario_message)) \<and>
   type (projr (extract_try platform_example scenario_message)) = CASH_IN \<and>
   amount (projr (extract_try platform_example scenario_message)) = 500000 \<and>
   category (projr (extract_try platform_example scenario_message)) = ''education''"
proof -
  have b: "scenario_message ''@body'' = Some scenario_body"
    by (simp add: scenario_message_def)
  have e: "extract_try platform_example scenario_message =
     Inr (projr (extract_try platform_example scenario_message))"
    by (simp add: scenario_try)
  show ?thesis
    using scenario_extraction [of scenario_message platform_example
        "projr (extract_try platform_example scenario_message)", OF b e] b e
    by blast
qed

text \<open>
  Claim C2 as stated fails on the scenario message: the reference extracted is \<open>erence\<close>
  (the pattern \<open>ref[:\s]*(\w+)\<close> matches inside \<open>Reference\<close>), not \<open>TX123456789\<close>, and the
  category is \<open>education\<close>, not one of \<open>deposit\<close>, \<open>transfer\<close>, \<open>other\<close>.
\<close>

theorem scenario_extraction_counterexample:
  "map_option reference
     (fst (extract_transaction_details platform_example scenario_message empty_state)) =
     Some (Some ''erence'') \<and>
   map_option reference
     (fst (extract_transaction_details platform_example scenario_message empty_state)) \<noteq>
     Some (Some ''TX123456789'') \<and>
   map_option category
     (fst (extract_transaction_details platform_example scenario_message empty_state)) =
     Some ''education'' \<and>
   map_option category
     (fst (extract_transaction_details platform_example scenario_message empty_state)) \<notin>
     {Some ''deposit'', Some ''transfer'', Some ''other''}"
  by (simp add: extract_transaction_details_def scenario_try scenario_reference scenario_category)

end
